theory Spec2Isabelle
  imports Main "HOL-Library.Word"
begin

unbundle bit_operations_syntax

text \<open>
  A model of two parts of Android's init: the lifecycle operations of class Service
  (init/service.cpp) and the write path of the property service (property_service.cpp:
  PropertySet, the socket connection, the permission checks, control messages and the
  asynchronous restorecon). Each operation is a function from the state of the object, or
  of the property service, and the answers of the system calls it makes, to the new state;
  what an operation does to the outside is appended to a trace. The model comes first, the
  properties after it.
\<close>

section \<open>The service supervisor (src/init/service.cpp)\<close>

subsection \<open>Flags, signals and the Service object\<close>

text \<open>
  Modelled from the spec: the header service.h, which declares the \<open>SVC_*\<close> macros, is not
  among the sources. The spec calls the flags a bitset of independent bits; each flag is
  one bit of the \<open>unsigned flags_\<close> member, and no two flags share a bit.
\<close>

definition SVC_DISABLED :: "32 word" where "SVC_DISABLED = 0x001"
definition SVC_ONESHOT :: "32 word" where "SVC_ONESHOT = 0x002"
definition SVC_RUNNING :: "32 word" where "SVC_RUNNING = 0x004"
definition SVC_RESTARTING :: "32 word" where "SVC_RESTARTING = 0x008"
definition SVC_CONSOLE :: "32 word" where "SVC_CONSOLE = 0x010"
definition SVC_CRITICAL :: "32 word" where "SVC_CRITICAL = 0x020"
definition SVC_RESET :: "32 word" where "SVC_RESET = 0x040"
definition SVC_RC_DISABLED :: "32 word" where "SVC_RC_DISABLED = 0x080"
definition SVC_RESTART :: "32 word" where "SVC_RESTART = 0x100"
definition SVC_DISABLED_START :: "32 word" where "SVC_DISABLED_START = 0x200"
definition SVC_EXEC :: "32 word" where "SVC_EXEC = 0x400"
definition SVC_TEMPORARY :: "32 word" where "SVC_TEMPORARY = 0x1000"

text \<open>The mask with only bit \<open>k\<close> set; every flag above is one of these.\<close>

definition flag_bit :: "nat \<Rightarrow> 32 word" where
  "flag_bit k = 2 ^ k"

text \<open>The signal numbers of Linux (signal.h).\<close>

definition SIGKILL :: int where "SIGKILL = 9"
definition SIGTERM :: int where "SIGTERM = 15"

text \<open>The C test \<open>flags_ & MASK\<close> used as a condition: some bit of the mask is set.\<close>

definition has :: "32 word \<Rightarrow> 32 word \<Rightarrow> bool" where
  "has w m = (w AND m \<noteq> 0)"

text \<open>
  What a Service operation does to the world outside the object, in the order it does it:
  calls into libprocessgroup, property writes, and the callbacks and command blocks whose
  bodies live elsewhere.
\<close>

datatype event =
    killProcessGroup nat int int          \<comment> \<open>uid, pid, signal\<close>
  | killProcessGroupOnce nat int int      \<comment> \<open>uid, pid, signal\<close>
  | property_set string string            \<comment> \<open>name, value\<close>
  | DelayService string                   \<comment> \<open>ServiceList::DelayService(*this)\<close>
  | DescriptorClean string                \<comment> \<open>DescriptorInfo::Clean of one descriptor\<close>
  | reap_callback nat                     \<comment> \<open>the i-th reap callback is run\<close>
  | onrestart_ExecuteAllCommands
  | fork_or_clone                         \<comment> \<open>fork(), or clone() with the namespace flags\<close>
  | WriteOomScoreAdj int int              \<comment> \<open>pid, oom_score_adjust\<close>
  | createProcessGroup nat int bool       \<comment> \<open>uid, pid, use_memcg\<close>
  | LOG_FATAL string                      \<comment> \<open>LOG(FATAL): the process aborts\<close>

text \<open>
  The members of class Service that the lifecycle operations read or write, the two static
  members of the class (\<open>next_start_order_\<close>, \<open>is_exec_service_running_\<close>), and the trace
  of events so far. \<open>crash_count_\<close> is an \<open>int\<close>: a 32-bit word, read as a signed number
  by \<open>sint\<close>, whose \<open>+ 1\<close> wraps from \<open>INT_MAX\<close> to \<open>INT_MIN\<close>. Times are
  \<open>boot_clock::time_point\<close>s, signed 64-bit counts of nanoseconds, with the same
  wrap-around; \<open>start_order_\<close> and \<open>next_start_order_\<close> are \<open>unsigned long\<close>.
\<close>

record service =
  name :: string
  flags :: "32 word"
  pid :: int
  crash_count :: "32 word"
  uid :: nat
  console :: string
  seclabel :: string
  oom_score_adjust :: int
  start_order :: "64 word"
  time_started :: "64 word"
  time_crashed :: "64 word"
  process_cgroup_empty :: bool
  pre_apexd :: bool
  post_data :: bool
  running_at_post_data_reset :: bool
  updatable :: bool
  use_memcg :: bool                    \<comment> \<open>line 460: some memory limit is configured\<close>
  descriptors :: "string list"
  reap_callbacks :: nat
  next_start_order :: "64 word"
  is_exec_service_running :: bool
  trace :: "event list"

text \<open>
  What the operating system and the rest of init answer during one operation: the return
  values of the calls the operation makes.
\<close>

record env =
  kill_result :: int              \<comment> \<open>r of killProcessGroup / killProcessGroupOnce\<close>
  boottime_unset :: bool          \<comment> \<open>GetProperty("ro.boottime.<name>", "").empty()\<close>
  services_updated :: bool        \<comment> \<open>ServiceList::IsServicesUpdated()\<close>
  default_console :: string
  console_open_ok :: bool         \<comment> \<open>open(console) >= 0\<close>
  stat_ok :: bool                 \<comment> \<open>stat(args_[0]) != -1\<close>
  computed_context :: "string option"  \<comment> \<open>ComputeContextFromExecutable, None its error\<close>
  runtime_apex_ready :: bool      \<comment> \<open>IsRuntimeApexReady()\<close>
  is_post_data :: bool            \<comment> \<open>ServiceList::IsPostData()\<close>
  fork_result :: int              \<comment> \<open>what fork() or clone() returns\<close>
  now :: "64 word"                \<comment> \<open>boot_clock::now()\<close>
  is_apex_updatable :: bool       \<comment> \<open>ApexProperties::updatable().value_or(false)\<close>
  boot_completed :: bool          \<comment> \<open>GetBoolProperty("sys.boot_completed", false)\<close>

definition emit :: "event \<Rightarrow> service \<Rightarrow> service" where
  "emit ev s = s\<lparr>trace := trace s @ [ev]\<rparr>"

text \<open>\<open>std::to_string\<close> of an unsigned number: its decimal digits.\<close>

definition digit_char :: "nat \<Rightarrow> char" where
  "digit_char d = char_of (48 + d)"

function to_string :: "nat \<Rightarrow> string" where
  "to_string n = (if n < 10 then [digit_char n] else to_string (n div 10) @ [digit_char (n mod 10)])"
  by pat_completeness auto
termination
  by (relation "measure id") auto

subsection \<open>NotifyStateChange and KillProcessGroup (lines 152-187)\<close>

definition NotifyStateChange :: "env \<Rightarrow> string \<Rightarrow> service \<Rightarrow> service" where
  "NotifyStateChange e new_state s =
     (if has (flags s) SVC_TEMPORARY then s
      else
        let s1 = emit (property_set (''init.svc.'' @ name s) new_state) s
        in if new_state = ''running'' \<and> boottime_unset e
           then emit (property_set (''ro.boottime.'' @ name s) (to_string (unat (time_started s)))) s1
           else s1)"

definition KillProcessGroup :: "env \<Rightarrow> int \<Rightarrow> service \<Rightarrow> service" where
  "KillProcessGroup e signal s =
     (if \<not> process_cgroup_empty s then
        let s1 = (if signal = SIGTERM
                  then emit (killProcessGroupOnce (uid s) (pid s) signal) s
                  else emit (killProcessGroup (uid s) (pid s) signal) s)
        in if kill_result e = 0 then s1\<lparr>process_cgroup_empty := True\<rparr> else s1
      else s)"

subsection \<open>StopOrReset (lines 588-619)\<close>

definition StopOrReset :: "env \<Rightarrow> 32 word \<Rightarrow> service \<Rightarrow> service" where
  "StopOrReset e how0 s =
     (let s1 = s\<lparr>flags := flags s AND NOT (SVC_RESTARTING OR SVC_DISABLED_START)\<rparr>;
          how = (if how0 \<noteq> SVC_DISABLED \<and> how0 \<noteq> SVC_RESET \<and> how0 \<noteq> SVC_RESTART
                 then SVC_DISABLED else how0);
          s2 = (if how = SVC_RESET
                then s1\<lparr>flags := flags s1 OR
                        (if has (flags s1) SVC_RC_DISABLED then SVC_DISABLED else SVC_RESET)\<rparr>
                else s1\<lparr>flags := flags s1 OR how\<rparr>);
          s3 = (if how = SVC_RESTART
                then s2\<lparr>flags := flags s2 AND NOT (SVC_DISABLED OR SVC_RESET)\<rparr>
                else s2\<lparr>flags := flags s2 AND NOT SVC_RESTART\<rparr>)
      in if pid s3 \<noteq> 0
         then NotifyStateChange e ''stopping'' (KillProcessGroup e SIGKILL s3)
         else NotifyStateChange e ''stopped'' s3)"

subsection \<open>Reap (lines 226-298)\<close>

text \<open>
  Modelled from the spec: \<open>UnSetExec\<close> is declared in service.h, which is not among the
  sources. The spec's Reap "clears EXEC".
\<close>

definition UnSetExec :: "service \<Rightarrow> service" where
  "UnSetExec s = s\<lparr>flags := flags s AND NOT SVC_EXEC\<rparr>"

text \<open>
  A \<open>LOG(FATAL)\<close> aborts init: the operation does not return. \<open>Aborted\<close> carries the
  state the object had at that moment.
\<close>

datatype outcome = Returned | Aborted

text \<open>\<open>4min\<close> in the nanoseconds of \<open>boot_clock\<close>.\<close>

definition four_minutes :: "64 word" where
  "four_minutes = 4 * 60 * 1000000000"

text \<open>
  Lines 259-288: the crash accounting inside Reap, reached when the service is neither
  TEMPORARY nor left DISABLED or RESET.
\<close>

definition crash_policy :: "env \<Rightarrow> service \<Rightarrow> outcome \<times> service" where
  "crash_policy e s =
     (let is_process_updatable = (\<not> pre_apexd s \<and> is_apex_updatable e)
      in if (has (flags s) SVC_CRITICAL \<or> is_process_updatable) \<and> \<not> has (flags s) SVC_RESTART
         then
           (if sint (now e) < sint (time_crashed s + four_minutes) \<or> \<not> boot_completed e
            then
              (let s1 = s\<lparr>crash_count := crash_count s + 1\<rparr>
               in if sint (crash_count s1) > 4
                  then (if has (flags s1) SVC_CRITICAL
                        then (Aborted, emit (LOG_FATAL (''critical process '' @ name s1)) s1)
                        else (Returned, emit (property_set ''ro.init.updatable_crashing'' ''1'') s1))
                  else (Returned, s1))
            else (Returned, s\<lparr>time_crashed := now e, crash_count := 1\<rparr>))
         else (Returned, s))"

definition Reap :: "env \<Rightarrow> service \<Rightarrow> outcome \<times> service" where
  "Reap e s =
     (let s1 = (if \<not> has (flags s) SVC_ONESHOT \<or> has (flags s) SVC_RESTART
                then KillProcessGroup e SIGKILL s else s);
          s2 = s1\<lparr>trace := trace s1 @ map DescriptorClean (descriptors s1)\<rparr>;
          s3 = s2\<lparr>trace := trace s2 @ map reap_callback [0 ..< reap_callbacks s2]\<rparr>;
          s4 = (if has (flags s3) SVC_EXEC then UnSetExec s3 else s3)
      in if has (flags s4) SVC_TEMPORARY then (Returned, s4)
         else
           (let s5 = s4\<lparr>pid := 0, flags := flags s4 AND NOT SVC_RUNNING, start_order := 0\<rparr>;
                s6 = (if has (flags s5) SVC_ONESHOT \<and> \<not> has (flags s5) SVC_RESTART
                         \<and> \<not> has (flags s5) SVC_RESET
                      then s5\<lparr>flags := flags s5 OR SVC_DISABLED\<rparr> else s5)
            in if has (flags s6) (SVC_DISABLED OR SVC_RESET)
               then (Returned, NotifyStateChange e ''stopped'' s6)
               else
                 (case crash_policy e s6 of
                    (Aborted, s7) \<Rightarrow> (Aborted, s7)
                  | (Returned, s7) \<Rightarrow>
                      (Returned,
                       NotifyStateChange e ''restarting''
                         (emit onrestart_ExecuteAllCommands
                            (s7\<lparr>flags := flags s7 AND NOT SVC_RESTART OR SVC_RESTARTING\<rparr>))))))"

text \<open>
  The path condition of the crash accounting: Reap gets past line 241 (not TEMPORARY) and
  past line 257 (neither DISABLED nor RESET after the ONESHOT rule of lines 249-251), and
  the test of line 269 holds. A ONESHOT service gets there only with RESTART set, which
  line 269 excludes.
\<close>

definition runs_crash_policy :: "env \<Rightarrow> service \<Rightarrow> bool" where
  "runs_crash_policy e s =
     (\<not> has (flags s) SVC_TEMPORARY \<and> \<not> has (flags s) SVC_ONESHOT
      \<and> \<not> has (flags s) SVC_DISABLED \<and> \<not> has (flags s) SVC_RESET
      \<and> \<not> has (flags s) SVC_RESTART
      \<and> (has (flags s) SVC_CRITICAL \<or> (\<not> pre_apexd s \<and> is_apex_updatable e)))"

subsection \<open>Start and ExecStart (lines 309-509)\<close>

datatype start_error =
    NotUpdated            \<comment> \<open>ExecStart: updatable service before the APEX configs are loaded\<close>
  | NotUpdatedQueued      \<comment> \<open>Start: the same, and the service is queued\<close>
  | NoConsole             \<comment> \<open>"Couldn't open console"\<close>
  | CannotFind            \<comment> \<open>"Cannot find" args_[0]\<close>
  | NoContext             \<comment> \<open>the error of ComputeContextFromExecutable\<close>
  | ForkFailed            \<comment> \<open>"Failed to fork"\<close>

text \<open>
  \<open>Result<void>\<close>, and a third case: in the child that fork() creates (it returns 0 there)
  Start never returns, the child execs or calls \<open>_exit(127)\<close>.
\<close>

datatype result = Success | Error start_error | InChild

text \<open>
  Lines 460-505 after the fork only call into libprocessgroup and log; they write no
  member of the object. The model records the one call that is always made,
  \<open>createProcessGroup\<close>, with the \<open>use_memcg\<close> it computes from the memory limits.
\<close>

definition Start :: "env \<Rightarrow> service \<Rightarrow> result \<times> service" where
  "Start e s =
     (if updatable s \<and> \<not> services_updated e
      then (Error NotUpdatedQueued, emit (DelayService (name s)) s)
      else
        let disabled = has (flags s) (SVC_DISABLED OR SVC_RESET);
            s1 = s\<lparr>flags := flags s AND NOT (SVC_DISABLED OR SVC_RESTARTING OR SVC_RESET
                                OR SVC_RESTART OR SVC_DISABLED_START)\<rparr>
        in if has (flags s1) SVC_RUNNING
           then (Success, if has (flags s1) SVC_ONESHOT \<and> disabled
                          then s1\<lparr>flags := flags s1 OR SVC_RESTART\<rparr> else s1)
           else
             let needs_console = has (flags s1) SVC_CONSOLE;
                 s2 = (if needs_console \<and> console s1 = []
                       then s1\<lparr>console := default_console e\<rparr> else s1)
             in if needs_console \<and> \<not> console_open_ok e
                then (Error NoConsole, s2\<lparr>flags := flags s2 OR SVC_DISABLED\<rparr>)
                else if \<not> stat_ok e
                then (Error CannotFind, s2\<lparr>flags := flags s2 OR SVC_DISABLED\<rparr>)
                else if seclabel s2 = [] \<and> computed_context e = None
                then (Error NoContext, s2)
                else
                  let s3 = (if \<not> runtime_apex_ready e \<and> \<not> pre_apexd s2
                            then s2\<lparr>pre_apexd := True\<rparr> else s2);
                      s4 = emit fork_or_clone (s3\<lparr>post_data := is_post_data e\<rparr>);
                      child = fork_result e
                  in if child = 0 then (InChild, s4)
                     else if child < 0 then (Error ForkFailed, s4\<lparr>pid := 0\<rparr>)
                     else
                       let s5 = (if oom_score_adjust s4 \<noteq> - 1000
                                 then emit (WriteOomScoreAdj child (oom_score_adjust s4)) s4
                                 else s4);
                           s6 = s5\<lparr>time_started := now e, pid := child,
                                   flags := flags s5 OR SVC_RUNNING,
                                   start_order := next_start_order s5,
                                   next_start_order := next_start_order s5 + 1,
                                   process_cgroup_empty := False\<rparr>;
                           s7 = emit (createProcessGroup (uid s6) (pid s6) (use_memcg s6)) s6
                       in (Success, NotifyStateChange e ''running'' s7))"

definition ExecStart :: "env \<Rightarrow> service \<Rightarrow> result \<times> service" where
  "ExecStart e s =
     (if updatable s \<and> \<not> services_updated e then (Error NotUpdated, s)
      else
        case Start e (s\<lparr>flags := flags s OR SVC_ONESHOT\<rparr>) of
          (Success, s1) \<Rightarrow>
            (Success, s1\<lparr>flags := flags s1 OR SVC_EXEC, is_exec_service_running := True\<rparr>)
        | (r, s1) \<Rightarrow> (r, s1))"

subsection \<open>The other lifecycle operations (lines 511-586)\<close>

definition StartIfNotDisabled :: "env \<Rightarrow> service \<Rightarrow> result \<times> service" where
  "StartIfNotDisabled e s =
     (if \<not> has (flags s) SVC_DISABLED then Start e s
      else (Success, s\<lparr>flags := flags s OR SVC_DISABLED_START\<rparr>))"

definition Enable :: "env \<Rightarrow> service \<Rightarrow> result \<times> service" where
  "Enable e s =
     (let s1 = s\<lparr>flags := flags s AND NOT (SVC_DISABLED OR SVC_RC_DISABLED)\<rparr>
      in if has (flags s1) SVC_DISABLED_START then Start e s1 else (Success, s1))"

definition Reset :: "env \<Rightarrow> service \<Rightarrow> service" where
  "Reset e s = StopOrReset e SVC_RESET s"

definition ResetIfPostData :: "env \<Rightarrow> service \<Rightarrow> service" where
  "ResetIfPostData e s =
     (if post_data s
      then StopOrReset e SVC_RESET
             (if has (flags s) SVC_RUNNING then s\<lparr>running_at_post_data_reset := True\<rparr> else s)
      else s)"

definition StartIfPostData :: "env \<Rightarrow> service \<Rightarrow> result \<times> service" where
  "StartIfPostData e s =
     (if running_at_post_data_reset s then Start e s else (Success, s))"

definition Stop :: "env \<Rightarrow> service \<Rightarrow> service" where
  "Stop e s = StopOrReset e SVC_DISABLED s"

definition Terminate :: "env \<Rightarrow> service \<Rightarrow> service" where
  "Terminate e s =
     (let s1 = s\<lparr>flags := flags s AND NOT (SVC_RESTARTING OR SVC_DISABLED_START)\<rparr>;
          s2 = s1\<lparr>flags := flags s1 OR SVC_DISABLED\<rparr>
      in if pid s2 \<noteq> 0
         then NotifyStateChange e ''stopping'' (KillProcessGroup e SIGTERM s2)
         else s2)"

definition Timeout :: "env \<Rightarrow> service \<Rightarrow> service" where
  "Timeout e s =
     (if pid s \<noteq> 0
      then NotifyStateChange e ''stopping'' (KillProcessGroup e SIGKILL s)
      else s)"

text \<open>
  Restart logs the error of Start and returns nothing; in the forked child Start does not
  return, and neither does Restart.
\<close>

definition Restart :: "env \<Rightarrow> service \<Rightarrow> result \<times> service" where
  "Restart e s =
     (if has (flags s) SVC_RUNNING then (Success, StopOrReset e SVC_RESTART s)
      else if \<not> has (flags s) SVC_RESTARTING
      then (case Start e s of (InChild, s1) \<Rightarrow> (InChild, s1) | (r, s1) \<Rightarrow> (Success, s1))
      else (Success, s))"

subsection \<open>Histories of one service\<close>

datatype op =
    OpStart | OpExecStart | OpStartIfNotDisabled | OpEnable | OpReset | OpResetIfPostData
  | OpStartIfPostData | OpStop | OpTerminate | OpTimeout | OpRestart
  | OpStopOrReset "32 word" | OpReap

text \<open>
  One operation of the supervisor on the service. \<open>None\<close>: the supervisor does not go on
  with this object, because init aborted, or because this is the forked child.
\<close>

definition continue :: "result \<times> service \<Rightarrow> service option" where
  "continue rs = (case rs of (InChild, s) \<Rightarrow> None | (r, s) \<Rightarrow> Some s)"

fun apply_op :: "op \<Rightarrow> env \<Rightarrow> service \<Rightarrow> service option" where
  "apply_op OpStart e s = continue (Start e s)"
| "apply_op OpExecStart e s = continue (ExecStart e s)"
| "apply_op OpStartIfNotDisabled e s = continue (StartIfNotDisabled e s)"
| "apply_op OpEnable e s = continue (Enable e s)"
| "apply_op OpReset e s = Some (Reset e s)"
| "apply_op OpResetIfPostData e s = Some (ResetIfPostData e s)"
| "apply_op OpStartIfPostData e s = continue (StartIfPostData e s)"
| "apply_op OpStop e s = Some (Stop e s)"
| "apply_op OpTerminate e s = Some (Terminate e s)"
| "apply_op OpTimeout e s = Some (Timeout e s)"
| "apply_op OpRestart e s = continue (Restart e s)"
| "apply_op (OpStopOrReset how) e s = Some (StopOrReset e how s)"
| "apply_op OpReap e s = (case Reap e s of (Aborted, s1) \<Rightarrow> None | (Returned, s1) \<Rightarrow> Some s1)"

fun run :: "(op \<times> env) list \<Rightarrow> service \<Rightarrow> service option" where
  "run [] s = Some s"
| "run ((o1, e) # rest) s = (case apply_op o1 e s of None \<Rightarrow> None | Some s1 \<Rightarrow> run rest s1)"

text \<open>
  The object as the constructor leaves it (lines 129-150): \<open>pid_\<close> is 0, and \<open>flags_\<close> is
  the constructor's argument, which is 0 or \<open>SVC_ONESHOT | SVC_TEMPORARY\<close> in this file
  and configuration bits otherwise, never \<open>SVC_RUNNING\<close>.
\<close>

definition constructed :: "service \<Rightarrow> bool" where
  "constructed s = (pid s = 0 \<and> \<not> has (flags s) SVC_RUNNING)"

subsection \<open>A service and an environment to run the operations on\<close>

text \<open>
  The object the constructor builds for the name \<open>svc\<close> with no flags (lines 125-150), with
  the static \<open>next_start_order_\<close> at its initial 1, and an environment in which every call
  succeeds: the fork returns the child's pid 100 and the boot is complete.
\<close>

definition service0 :: service where
  "service0 =
     \<lparr>name = ''svc'', flags = 0, pid = 0, crash_count = 0, uid = 0, console = [],
      seclabel = [], oom_score_adjust = - 1000, start_order = 0, time_started = 0,
      time_crashed = 0, process_cgroup_empty = False, pre_apexd = False, post_data = False,
      running_at_post_data_reset = False, updatable = False, use_memcg = False,
      descriptors = [], reap_callbacks = 0, next_start_order = 1,
      is_exec_service_running = False, trace = []\<rparr>"

definition env0 :: env where
  "env0 =
     \<lparr>kill_result = 0, boottime_unset = True, services_updated = True,
      default_console = ''/dev/console'', console_open_ok = True, stat_ok = True,
      computed_context = Some ''u:r:svc:s0'', runtime_apex_ready = True,
      is_post_data = False, fork_result = 100, now = 1000000000,
      is_apex_updatable = False, boot_completed = True\<rparr>"

section \<open>The property service (src/unnamed/part_000)\<close>

text \<open>
  The file includes \<open>property_service.h\<close> first and defines \<open>PropertySet\<close>,
  \<open>HandlePropertySet\<close> and the socket handling of init's property service; the line numbers
  in this section are its own.
\<close>

subsection \<open>Strings, names and values\<close>

definition StartsWith :: "string \<Rightarrow> string \<Rightarrow> bool" where
  "StartsWith s prefix = (take (length prefix) s = prefix)"

text \<open>\<open>std::string::c_str()\<close> read as a C string: the characters before the first NUL.\<close>

definition c_str :: "string \<Rightarrow> string" where
  "c_str s = takeWhile (\<lambda>c. c \<noteq> CHR 0x00) s"

text \<open>
  Modelled from the spec: \<open>IsLegalPropertyName\<close> and \<open>IsLegalPropertyValue\<close> are defined in
  util.cpp, which is not among the sources. The spec: the alphabet of a name is
  \<open>[A-Za-z0-9._-]\<close>, its length is bounded by 31, and no segment between dots is empty; a
  value is legal when its length is at most 91.
\<close>

definition name_alphabet :: "char set" where
  "name_alphabet =
     set ''abcdefghijklmnopqrstuvwxyzABCDEFGHIJKLMNOPQRSTUVWXYZ0123456789._-''"

fun segments :: "string \<Rightarrow> string list" where
  "segments [] = [[]]"
| "segments (c # cs) =
     (if c = CHR ''.'' then [] # segments cs
      else (case segments cs of [] \<Rightarrow> [[c]] | seg # rest \<Rightarrow> (c # seg) # rest))"

definition IsLegalPropertyName :: "string \<Rightarrow> bool" where
  "IsLegalPropertyName name' =
     (length name' \<le> 31 \<and> list_all (\<lambda>c. c \<in> name_alphabet) name'
      \<and> list_all (\<lambda>seg. seg \<noteq> []) (segments name'))"

definition IsLegalPropertyValue :: "string \<Rightarrow> string \<Rightarrow> bool" where
  "IsLegalPropertyValue name' value = (length value \<le> 91)"

text \<open>
  Modelled from the spec: \<open>kRestoreconProperty\<close> is declared in property_service.h, which is
  not among the sources; the spec names the property.
\<close>

definition kRestoreconProperty :: string where
  "kRestoreconProperty = ''selinux.restorecon_recursive''"

text \<open>The result codes of the property service (\<open>PROP_SUCCESS\<close>, \<open>PROP_ERROR_*\<close>).\<close>

datatype prop_result =
    PROP_SUCCESS
  | PROP_ERROR_READ_CMD
  | PROP_ERROR_READ_DATA
  | PROP_ERROR_INVALID_CMD
  | PROP_ERROR_INVALID_NAME
  | PROP_ERROR_INVALID_VALUE
  | PROP_ERROR_PERMISSION_DENIED
  | PROP_ERROR_SET_FAILED
  | PROP_ERROR_READ_ONLY_PROPERTY
  | PROP_ERROR_HANDLE_CONTROL_MESSAGE

subsection \<open>The state of the property service\<close>

text \<open>A \<open>PropertyMessage\<close> sent to init on \<open>init_socket\<close>.\<close>

datatype message =
    changed_message string string                 \<comment> \<open>name, value\<close>
  | control_message string string int "int option"  \<comment> \<open>msg, name, pid, fd when set\<close>

text \<open>
  The property area (what \<open>__system_property_find\<close>, \<open>_update\<close> and \<open>_add\<close> of the C
  library work on), the static variables of the file, the queue of \<open>AsyncRestorecon\<close>, and
  what the service has done so far: persistent properties written, messages that reached
  init, descriptors closed by hand, worker threads started.
\<close>

record prop_state =
  props :: "string \<rightharpoonup> string"
  persistent_properties_loaded :: bool
  accept_messages :: bool
  persisted :: "(string \<times> string) list"
  sent :: "message list"
  closed_fds :: "int list"
  paths :: "string list"
  thread_started :: bool
  threads_spawned :: nat

record ucred =
  cr_pid :: int
  cr_uid :: nat
  cr_gid :: nat

text \<open>The answers of the C library, SELinux and the socket layer during one request.\<close>

record prop_env =
  add_rc :: int                                \<comment> \<open>rc of __system_property_add\<close>
  send_ok :: bool                              \<comment> \<open>SendMessage(init_socket, ...) succeeds\<close>
  property_info :: "string \<Rightarrow> string option \<times> string option"
      \<comment> \<open>GetPropertyInfo: target context and type of a name, None a null pointer\<close>
  selinux_allows :: "string \<Rightarrow> string \<Rightarrow> bool"
      \<comment> \<open>selinux_check_access(source, target, "property_service", "set") == 0\<close>
  check_type :: "string option \<Rightarrow> string \<Rightarrow> bool"   \<comment> \<open>CheckType(type, value)\<close>
  vendor_api_level :: int                      \<comment> \<open>SelinuxGetVendorAndroidVersion()\<close>

definition ANDROID_API_Q :: int where
  "ANDROID_API_Q = 29"

subsection \<open>PropertySet (lines 150-202)\<close>

definition SendPropertyChanged :: "prop_env \<Rightarrow> string \<Rightarrow> string \<Rightarrow> prop_state \<Rightarrow> prop_state" where
  "SendPropertyChanged e name' value st =
     (if send_ok e then st\<lparr>sent := sent st @ [changed_message name' value]\<rparr> else st)"

text \<open>The \<open>error\<close> out-parameter only feeds the log and is left out.\<close>

definition PropertySet :: "prop_env \<Rightarrow> string \<Rightarrow> string \<Rightarrow> prop_state \<Rightarrow> prop_result \<times> prop_state" where
  "PropertySet e name' value st =
     (let after_write = (\<lambda>st1.
            let st2 = (if persistent_properties_loaded st1 \<and> StartsWith name' ''persist.''
                       then st1\<lparr>persisted := persisted st1 @ [(name', value)]\<rparr> else st1);
                st3 = (if accept_messages st2 then SendPropertyChanged e name' value st2
                       else st2)
            in (PROP_SUCCESS, st3))
      in if \<not> IsLegalPropertyName name' then (PROP_ERROR_INVALID_NAME, st)
         else if \<not> IsLegalPropertyValue name' value then (PROP_ERROR_INVALID_VALUE, st)
         else
           (case props st name' of
              Some found \<Rightarrow>
                if StartsWith name' ''ro.'' then (PROP_ERROR_READ_ONLY_PROPERTY, st)
                else after_write (st\<lparr>props := (props st)(name' \<mapsto> value)\<rparr>)
            | None \<Rightarrow>
                if add_rc e < 0 then (PROP_ERROR_SET_FAILED, st)
                else after_write (st\<lparr>props := (props st)(name' \<mapsto> value)\<rparr>)))"

subsection \<open>AsyncRestorecon: TriggerRestorecon (lines 204-214)\<close>

definition TriggerRestorecon :: "string \<Rightarrow> prop_state \<Rightarrow> prop_state" where
  "TriggerRestorecon path st =
     (let st1 = st\<lparr>paths := paths st @ [path]\<rparr>
      in if \<not> thread_started st1
         then st1\<lparr>thread_started := True, threads_spawned := threads_spawned st1 + 1\<rparr>
         else st1)"

subsection \<open>SocketConnection (lines 240-372)\<close>

text \<open>
  What one call of \<open>poll\<close> on the client socket returns: \<open>nr\<close>, the milliseconds that
  passed during the call, and whether \<open>errno\<close> is \<open>EINTR\<close> when \<open>nr\<close> is negative.
\<close>

record poll_ret =
  nr :: int
  millis :: nat
  eintr :: bool

text \<open>
  What the socket has for one call of \<open>recv\<close>: an error or end of stream (a result of 0 or
  less), or the bytes that have arrived, of which \<open>recv\<close> takes as many as are asked for
  and leaves the rest in the socket.
\<close>

datatype recv_ret = recv_failed | recv_bytes string

text \<open>
  The connection: the descriptor \<open>socket_\<close> (-1 once released), the credentials of the peer,
  and what the calls of \<open>poll\<close> and \<open>recv\<close> on this socket are going to return, in order.
  When \<open>polls\<close> is used up the peer stays silent, and \<open>poll\<close> runs into its timeout; when
  \<open>recvs\<close> is used up, \<open>recv\<close> returns 0.
\<close>

record SocketConnection =
  socket_fd :: int
  cred :: ucred
  polls :: "poll_ret list"
  recvs :: "recv_ret list"

text \<open>
  \<open>PollIn\<close>: the loop runs while \<open>*timeout_ms > 0\<close>. The result is what the function returns,
  the new \<open>*timeout_ms\<close>, and the polls still to come. \<open>timeout_ms\<close> is an \<open>uint32_t\<close> that
  only goes down, and the subtraction stops at 0 as line 314 does.
\<close>

fun PollIn :: "poll_ret list \<Rightarrow> nat \<Rightarrow> bool \<times> nat \<times> poll_ret list" where
  "PollIn [] timeout_ms = (False, 0, [])"
| "PollIn (p # ps) timeout_ms =
     (if timeout_ms > 0 then
        let t1 = (if millis p > timeout_ms then 0 else timeout_ms - millis p)
        in if nr p > 0 then (True, t1, ps)
           else if nr p = 0 then (False, t1, ps)
           else if nr p < 0 \<and> \<not> eintr p then (False, t1, ps)
           else PollIn ps (if t1 > 0 then t1 - 1 else t1)
      else (False, timeout_ms, p # ps))"

text \<open>
  One \<open>recv(socket_, data, bytes_left, MSG_DONTWAIT)\<close>: the bytes it stores, None when its
  result is 0 or less, and what is left for the calls after it.
\<close>

fun recv :: "recv_ret list \<Rightarrow> nat \<Rightarrow> string option \<times> recv_ret list" where
  "recv [] bytes_left = (None, [])"
| "recv (recv_failed # rs) bytes_left = (None, rs)"
| "recv (recv_bytes bs # rs) bytes_left =
     (if bs = [] \<or> bytes_left = 0 then (None, rs)
      else if length bs \<le> bytes_left then (Some bs, rs)
      else (Some (take bytes_left bs), recv_bytes (drop bytes_left bs) # rs))"

text \<open>
  \<open>RecvFully\<close>: \<open>data\<close> is what has been stored so far, \<open>bytes_left\<close> what is still asked for.
  The result is the \<open>size\<close> bytes read when the function returns true, None when it returns
  false, with the new \<open>*timeout_ms\<close> and the connection.
\<close>

lemma recv_Some: "recv rs n = (Some bs, rs') \<Longrightarrow> bs \<noteq> [] \<and> length bs \<le> n"
  by (cases "(rs, n)" rule: recv.cases) (auto split: if_splits)

function RecvFully_loop ::
  "SocketConnection \<Rightarrow> string \<Rightarrow> nat \<Rightarrow> nat \<Rightarrow> string option \<times> nat \<times> SocketConnection" where
  "RecvFully_loop c data bytes_left timeout_ms =
     (if timeout_ms > 0 \<and> bytes_left > 0 then
        (case PollIn (polls c) timeout_ms of
           (False, t1, ps) \<Rightarrow> (None, t1, c\<lparr>polls := ps\<rparr>)
         | (True, t1, ps) \<Rightarrow>
             (case recv (recvs c) bytes_left of
                (None, rs) \<Rightarrow> (None, t1, c\<lparr>polls := ps, recvs := rs\<rparr>)
              | (Some bs, rs) \<Rightarrow>
                  RecvFully_loop (c\<lparr>polls := ps, recvs := rs\<rparr>) (data @ bs)
                    (bytes_left - length bs) t1))
      else (if bytes_left = 0 then Some data else None, timeout_ms, c))"
  by pat_completeness auto
termination
proof (relation "measure (\<lambda>(c, data, bytes_left, timeout_ms). bytes_left)")
  show "wf (measure (\<lambda>(c, data, bytes_left, timeout_ms). bytes_left))"
    by simp
next
  fix c :: SocketConnection and data :: string and bytes_left timeout_ms :: nat
  fix x :: bool and y :: "nat \<times> poll_ret list" and xa ya xb yb x2
  assume pos: "0 < timeout_ms \<and> 0 < bytes_left"
    and r: "(xb, yb) = recv (recvs c) bytes_left" "xb = Some x2"
  from r have "recv (recvs c) bytes_left = (Some x2, yb)" by simp
  then have "x2 \<noteq> []" by (rule recv_Some [THEN conjunct1])
  with pos
  show "((c\<lparr>polls := ya, recvs := yb\<rparr>, data @ x2, bytes_left - length x2, xa),
         (c, data, bytes_left, timeout_ms))
        \<in> measure (\<lambda>(c, data, bytes_left, timeout_ms). bytes_left)"
    by (cases x2) auto
qed

definition RecvFully :: "SocketConnection \<Rightarrow> nat \<Rightarrow> nat \<Rightarrow> string option \<times> nat \<times> SocketConnection" where
  "RecvFully c size' timeout_ms = RecvFully_loop c [] size' timeout_ms"

text \<open>
  The four bytes of an \<open>uint32_t\<close> as they lie in memory on the little-endian machines init
  runs on.
\<close>

definition uint32_of_bytes :: "string \<Rightarrow> 32 word" where
  "uint32_of_bytes bs = word_of_nat (foldr (\<lambda>b acc. of_char b + 256 * acc) bs 0)"

definition RecvUint32 :: "SocketConnection \<Rightarrow> nat \<Rightarrow> 32 word option \<times> nat \<times> SocketConnection" where
  "RecvUint32 c timeout_ms =
     (case RecvFully c 4 timeout_ms of
        (None, t1, c1) \<Rightarrow> (None, t1, c1)
      | (Some bs, t1, c1) \<Rightarrow> (Some (uint32_of_bytes bs), t1, c1))"

definition RecvChars :: "SocketConnection \<Rightarrow> nat \<Rightarrow> nat \<Rightarrow> string option \<times> nat \<times> SocketConnection" where
  "RecvChars c size' timeout_ms = RecvFully c size' timeout_ms"

definition RecvString :: "SocketConnection \<Rightarrow> nat \<Rightarrow> string option \<times> nat \<times> SocketConnection" where
  "RecvString c timeout_ms =
     (case RecvUint32 c timeout_ms of
        (None, t1, c1) \<Rightarrow> (None, t1, c1)
      | (Some len, t1, c1) \<Rightarrow>
          if len = 0 then (Some [], t1, c1)
          else if len > 0xffff then (None, t1, c1)
          else RecvChars c1 (unat len) t1)"

definition Release :: "SocketConnection \<Rightarrow> int \<times> SocketConnection" where
  "Release c = (socket_fd c, c\<lparr>socket_fd := - 1\<rparr>)"

declare RecvFully_loop.simps [simp del]

subsection \<open>Permissions and control messages (lines 133-148 and 374-471)\<close>

text \<open>
  \<open>CheckMacPerms\<close>: \<open>target_context\<close> is a pointer that may be null; \<open>source_context\<close> is the
  \<open>c_str()\<close> of a string at every call and never null. The name and the credentials only
  go into the audit record.
\<close>

definition CheckMacPerms :: "prop_env \<Rightarrow> string \<Rightarrow> string option \<Rightarrow> string \<Rightarrow> ucred \<Rightarrow> bool" where
  "CheckMacPerms e name' target_context source_context cr =
     (case target_context of
        None \<Rightarrow> False
      | Some target \<Rightarrow> selinux_allows e source_context target)"

text \<open>
  \<open>SendControlMessage\<close>: \<open>socket\<close> is a pointer that may be null. The result is the code,
  the state, and the connection, whose descriptor has been released when it was handed
  over to init.
\<close>

definition SendControlMessage ::
  "prop_env \<Rightarrow> string \<Rightarrow> string \<Rightarrow> int \<Rightarrow> SocketConnection option \<Rightarrow> prop_state
     \<Rightarrow> prop_result \<times> prop_state \<times> SocketConnection option" where
  "SendControlMessage e msg name' pid' socket st =
     (if \<not> accept_messages st then (PROP_ERROR_HANDLE_CONTROL_MESSAGE, st, socket)
      else
        let (fd, fd_set, socket1) =
              (case socket of
                 Some c \<Rightarrow>
                   if vendor_api_level e > ANDROID_API_Q
                   then (fst (Release c), True, Some (snd (Release c)))
                   else (- 1, False, socket)
               | None \<Rightarrow> (- 1, False, socket));
            control = control_message msg name' pid' (if fd_set then Some fd else None)
        in if \<not> send_ok e
           then (PROP_ERROR_HANDLE_CONTROL_MESSAGE,
                 (if fd \<noteq> - 1 then st\<lparr>closed_fds := closed_fds st @ [fd]\<rparr> else st), socket1)
           else (PROP_SUCCESS, st\<lparr>sent := sent st @ [control]\<rparr>, socket1))"

definition CheckControlPropertyPerms :: "prop_env \<Rightarrow> string \<Rightarrow> string \<Rightarrow> string \<Rightarrow> ucred \<Rightarrow> bool" where
  "CheckControlPropertyPerms e name' value source_context cr =
     (let legacy_granted =
            ((name' = ''ctl.start'' \<or> name' = ''ctl.stop'' \<or> name' = ''ctl.restart'')
             \<and> (let control_string_legacy = ''ctl.'' @ value;
                      target_context_legacy = fst (property_info e (c_str control_string_legacy))
                  in CheckMacPerms e control_string_legacy target_context_legacy
                       (c_str source_context) cr))
      in if legacy_granted then True
         else
           let control_string_full = name' @ ''$'' @ value;
               target_context_full = fst (property_info e (c_str control_string_full))
           in CheckMacPerms e control_string_full target_context_full (c_str source_context) cr)"

definition CheckPermissions :: "prop_env \<Rightarrow> string \<Rightarrow> string \<Rightarrow> string \<Rightarrow> ucred \<Rightarrow> prop_result" where
  "CheckPermissions e name' value source_context cr =
     (if \<not> IsLegalPropertyName name' then PROP_ERROR_INVALID_NAME
      else if StartsWith name' ''ctl.'' then
        (if \<not> CheckControlPropertyPerms e name' value source_context cr
         then PROP_ERROR_HANDLE_CONTROL_MESSAGE else PROP_SUCCESS)
      else
        let (target_context, type) = property_info e (c_str name')
        in if \<not> CheckMacPerms e name' target_context (c_str source_context) cr
           then PROP_ERROR_PERMISSION_DENIED
           else if \<not> check_type e type value then PROP_ERROR_INVALID_VALUE
           else PROP_SUCCESS)"

subsection \<open>HandlePropertySet (lines 473-511)\<close>

text \<open>
  The block for \<open>sys.powerctl\<close> (lines 487-498) only writes to the log and is left out.
  \<open>name.c_str() + 4\<close> is the C string behind the first four characters of the name.
\<close>

definition HandlePropertySet ::
  "prop_env \<Rightarrow> string \<Rightarrow> string \<Rightarrow> string \<Rightarrow> ucred \<Rightarrow> SocketConnection option \<Rightarrow> prop_state
     \<Rightarrow> prop_result \<times> prop_state \<times> SocketConnection option" where
  "HandlePropertySet e name' value source_context cr socket st =
     (let ret = CheckPermissions e name' value source_context cr
      in if ret \<noteq> PROP_SUCCESS then (ret, st, socket)
         else if StartsWith name' ''ctl.''
         then SendControlMessage e (drop 4 (c_str name')) value (cr_pid cr) socket st
         else if name' = kRestoreconProperty \<and> cr_pid cr \<noteq> 1 \<and> value \<noteq> []
         then (PROP_SUCCESS, TriggerRestorecon value st, socket)
         else (case PropertySet e name' value st of (r, st1) \<Rightarrow> (r, st1, socket)))"

subsection \<open>AsyncRestorecon: the worker thread (lines 216-233)\<close>

text \<open>The credentials of a connection that init itself has opened.\<close>

definition init_cred :: ucred where
  "init_cred = \<lparr>cr_pid = 1, cr_uid = 0, cr_gid = 0\<rparr>"

text \<open>
  Modelled from the spec: \<open>android::base::SetProperty\<close> belongs to libbase, which is not
  among the sources. The spec has the worker write the property "as a normal property":
  the call is a set request of init itself (pid 1) to the property service, which handles
  it as it handles every request, in \<open>HandlePropertySet\<close>. The key and the value go into
  the request as C strings, as the path goes into the restorecon of line 225; the worker
  does not look at the result. \<open>e\<close> and \<open>source_context\<close> are the answers of the system
  and the SELinux context of init during that request.
\<close>

definition SetProperty :: "prop_env \<Rightarrow> string \<Rightarrow> string \<Rightarrow> string \<Rightarrow> prop_state \<Rightarrow> prop_state" where
  "SetProperty e source_context key value st =
     fst (snd (HandlePropertySet e (c_str key) (c_str value) source_context init_cred None st))"

text \<open>What the worker thread calls outside the queue, in order.\<close>

datatype worker_event =
    selinux_android_restorecon string
      \<comment> \<open>selinux_android_restorecon(path, RECURSE) has returned; the C string it was given\<close>
  | android_base_SetProperty string string
      \<comment> \<open>android::base::SetProperty(key, value) is called with these strings\<close>

text \<open>
  The loop of \<open>ThreadFunction\<close>, lines 219-230: while the queue is not empty, the path at
  its front is taken off, the restorecon runs on \<open>path.c_str()\<close>, its result is only
  logged, and then the property is set to the path. The function returns the calls of the
  run and the state once the queue is empty. Requests of other processes that arrive
  while the worker runs are not part of it.
\<close>

lemma paths_SetProperty: "paths (SetProperty e source_context key value st) = paths st"
  by (simp add: SetProperty_def HandlePropertySet_def SendControlMessage_def PropertySet_def
      SendPropertyChanged_def init_cred_def Let_def split: option.splits prod.splits)

function ThreadFunction_loop ::
  "prop_env \<Rightarrow> string \<Rightarrow> prop_state \<Rightarrow> worker_event list \<times> prop_state" where
  "ThreadFunction_loop e source_context st =
     (case paths st of
        [] \<Rightarrow> ([], st)
      | path # rest \<Rightarrow>
          (case ThreadFunction_loop e source_context
                  (SetProperty e source_context kRestoreconProperty path (st\<lparr>paths := rest\<rparr>)) of
             (events, st1) \<Rightarrow>
               (selinux_android_restorecon (c_str path)
                  # android_base_SetProperty kRestoreconProperty path # events,
                st1)))"
  by pat_completeness auto
termination
  by (relation "measure (\<lambda>(e, source_context, st). length (paths st))")
     (simp_all add: paths_SetProperty)

declare ThreadFunction_loop.simps [simp del]

definition ThreadFunction ::
  "prop_env \<Rightarrow> string \<Rightarrow> prop_state \<Rightarrow> worker_event list \<times> prop_state" where
  "ThreadFunction e source_context st =
     (case ThreadFunction_loop e source_context st of
        (events, st1) \<Rightarrow> (events, st1\<lparr>thread_started := False\<rparr>))"

subsection \<open>Histories of the property service\<close>

text \<open>
  The two ways this file changes the state: a direct \<open>PropertySet\<close>, as init does while it
  loads its defaults, and a request that goes through \<open>HandlePropertySet\<close>.
\<close>

datatype prop_call =
    Set_call prop_env string string
  | Handle_call prop_env string string string ucred "SocketConnection option"

fun after_call :: "prop_state \<Rightarrow> prop_call \<Rightarrow> prop_state" where
  "after_call st (Set_call e name' value) = snd (PropertySet e name' value st)"
| "after_call st (Handle_call e name' value source_context cr socket) =
     fst (snd (HandlePropertySet e name' value source_context cr socket st))"

definition after_calls :: "prop_state \<Rightarrow> prop_call list \<Rightarrow> prop_state" where
  "after_calls st calls = foldl after_call st calls"

text \<open>
  A property service to run requests on: an empty property area before init accepts
  messages, and an environment in which the area has room, SELinux grants every access,
  every type check passes and the vendor API level is 30.
\<close>

definition prop_state0 :: prop_state where
  "prop_state0 =
     \<lparr>props = Map.empty, persistent_properties_loaded = False, accept_messages = False,
      persisted = [], sent = [], closed_fds = [], paths = [], thread_started = False,
      threads_spawned = 0\<rparr>"

definition prop_env0 :: prop_env where
  "prop_env0 =
     \<lparr>add_rc = 0, send_ok = True,
      property_info = (\<lambda>n. (Some ''u:object_r:default_prop:s0'', Some ''string'')),
      selinux_allows = (\<lambda>source target. True),
      check_type = (\<lambda>type value. True),
      vendor_api_level = 30\<rparr>"

definition shell_cred :: ucred where
  "shell_cred = \<lparr>cr_pid = 1234, cr_uid = 2000, cr_gid = 2000\<rparr>"

text \<open>
  A client connection on which the whole frame has arrived in one piece, and on which
  every poll finds the socket readable at once.
\<close>

definition client_socket :: "string \<Rightarrow> SocketConnection" where
  "client_socket frame =
     \<lparr>socket_fd = 5, cred = shell_cred,
      polls = replicate (length frame) \<lparr>nr = 1, millis = 0, eintr = False\<rparr>,
      recvs = [recv_bytes frame]\<rparr>"

section \<open>Properties of the service supervisor\<close>

subsection \<open>Flags as bits\<close>

lemma SVC_bits:
  "SVC_DISABLED = flag_bit 0" "SVC_ONESHOT = flag_bit 1" "SVC_RUNNING = flag_bit 2"
  "SVC_RESTARTING = flag_bit 3" "SVC_CONSOLE = flag_bit 4" "SVC_CRITICAL = flag_bit 5"
  "SVC_RESET = flag_bit 6" "SVC_RC_DISABLED = flag_bit 7" "SVC_RESTART = flag_bit 8"
  "SVC_DISABLED_START = flag_bit 9" "SVC_EXEC = flag_bit 10" "SVC_TEMPORARY = flag_bit 12"
  by (simp_all add: SVC_DISABLED_def SVC_ONESHOT_def SVC_RUNNING_def SVC_RESTARTING_def
      SVC_CONSOLE_def SVC_CRITICAL_def SVC_RESET_def SVC_RC_DISABLED_def SVC_RESTART_def
      SVC_DISABLED_START_def SVC_EXEC_def SVC_TEMPORARY_def flag_bit_def)

lemma has_flag_bit: "k < 32 \<Longrightarrow> has w (flag_bit k) = bit w k"
  by (simp add: has_def flag_bit_def and_exp_eq_0_iff_not_bit)

lemma bit_flag_bit: "bit (flag_bit k) n = (n = k \<and> n < 32)"
  by (auto simp add: flag_bit_def bit_simps)

lemma has_OR: "has w (a OR b) = (has w a \<or> has w b)"
  by (auto simp add: has_def bit_eq_iff bit_simps)

lemma flag_bit_inject: "j < 32 \<Longrightarrow> k < 32 \<Longrightarrow> (flag_bit j = flag_bit k) = (j = k)"
  by (metis bit_flag_bit)

lemmas flag_simps = SVC_bits has_OR has_flag_bit bit_flag_bit bit_and_iff bit_or_iff bit_not_iff
  flag_bit_inject

subsection \<open>StopOrReset\<close>

lemma trace_NotifyStateChange:
  "trace (NotifyStateChange e st s) =
     trace s @ (if has (flags s) SVC_TEMPORARY then []
                else property_set (''init.svc.'' @ name s) st
                     # (if st = ''running'' \<and> boottime_unset e
                        then [property_set (''ro.boottime.'' @ name s) (to_string (unat (time_started s)))]
                        else []))"
  by (simp add: NotifyStateChange_def emit_def Let_def)

lemma NotifyStateChange_fields [simp]:
  "flags (NotifyStateChange e st s) = flags s"
  "pid (NotifyStateChange e st s) = pid s"
  "name (NotifyStateChange e st s) = name s"
  by (simp_all add: NotifyStateChange_def emit_def Let_def)

lemma trace_KillProcessGroup:
  "trace (KillProcessGroup e sig s) =
     trace s @ (if process_cgroup_empty s then []
                else if sig = SIGTERM then [killProcessGroupOnce (uid s) (pid s) sig]
                else [killProcessGroup (uid s) (pid s) sig])"
  by (simp add: KillProcessGroup_def emit_def Let_def)

lemma KillProcessGroup_fields [simp]:
  "flags (KillProcessGroup e sig s) = flags s"
  "pid (KillProcessGroup e sig s) = pid s"
  "name (KillProcessGroup e sig s) = name s"
  by (simp_all add: KillProcessGroup_def emit_def Let_def)


lemma SVC_distinct:
  "SVC_RESET \<noteq> SVC_DISABLED" "SVC_RESTART \<noteq> SVC_DISABLED" "SVC_RESTART \<noteq> SVC_RESET"
  "SVC_DISABLED \<noteq> SVC_RESET" "SVC_DISABLED \<noteq> SVC_RESTART" "SVC_RESET \<noteq> SVC_RESTART"
  by (simp_all add: SVC_bits flag_bit_inject)

lemma StopOrReset_alt:
  "StopOrReset e how s =
     (let f1 = flags s AND NOT (SVC_RESTARTING OR SVC_DISABLED_START);
          s3 = s\<lparr>flags :=
                 (if how = SVC_RESTART then (f1 OR SVC_RESTART) AND NOT (SVC_DISABLED OR SVC_RESET)
                  else if how = SVC_RESET then
                    (f1 OR (if has f1 SVC_RC_DISABLED then SVC_DISABLED else SVC_RESET))
                      AND NOT SVC_RESTART
                  else (f1 OR SVC_DISABLED) AND NOT SVC_RESTART)\<rparr>
      in if pid s \<noteq> 0
         then NotifyStateChange e ''stopping'' (KillProcessGroup e SIGKILL s3)
         else NotifyStateChange e ''stopped'' s3)"
proof -
  consider "how = SVC_RESTART" | "how = SVC_RESET" | "how \<noteq> SVC_RESTART" "how \<noteq> SVC_RESET"
    by blast
  then show ?thesis
  proof cases
    case 1
    then show ?thesis
      by (simp add: StopOrReset_def SVC_distinct Let_def)
  next
    case 2
    then show ?thesis
      by (simp add: StopOrReset_def SVC_distinct Let_def)
  next
    case 3
    then show ?thesis
      by (simp add: StopOrReset_def SVC_distinct Let_def)
  qed
qed

lemma pid_StopOrReset: "pid (StopOrReset e how s) = pid s"
  by (simp add: StopOrReset_alt Let_def)

lemma flags_StopOrReset:
  "flags (StopOrReset e how s) =
     (if how = SVC_RESTART
      then ((flags s AND NOT (SVC_RESTARTING OR SVC_DISABLED_START)) OR SVC_RESTART)
             AND NOT (SVC_DISABLED OR SVC_RESET)
      else if how = SVC_RESET
      then ((flags s AND NOT (SVC_RESTARTING OR SVC_DISABLED_START))
              OR (if has (flags s) SVC_RC_DISABLED then SVC_DISABLED else SVC_RESET))
             AND NOT SVC_RESTART
      else ((flags s AND NOT (SVC_RESTARTING OR SVC_DISABLED_START)) OR SVC_DISABLED)
             AND NOT SVC_RESTART)"
proof -
  have "has (flags s AND NOT (SVC_RESTARTING OR SVC_DISABLED_START)) SVC_RC_DISABLED
          = has (flags s) SVC_RC_DISABLED"
    by (simp add: flag_simps)
  then show ?thesis
    by (simp add: StopOrReset_alt Let_def)
qed

lemma trace_StopOrReset:
  "trace (StopOrReset e how s) =
     trace s @
       (if pid s \<noteq> 0
        then (if process_cgroup_empty s then [] else [killProcessGroup (uid s) (pid s) SIGKILL])
             @ (if has (flags s) SVC_TEMPORARY then []
                else [property_set (''init.svc.'' @ name s) ''stopping''])
        else (if has (flags s) SVC_TEMPORARY then []
              else [property_set (''init.svc.'' @ name s) ''stopped'']))"
proof -
  define F where "F = flags (StopOrReset e how s)"
  have alt: "StopOrReset e how s =
      (if pid s \<noteq> 0 then NotifyStateChange e ''stopping'' (KillProcessGroup e SIGKILL (s\<lparr>flags := F\<rparr>))
       else NotifyStateChange e ''stopped'' (s\<lparr>flags := F\<rparr>))"
    unfolding F_def flags_StopOrReset using StopOrReset_alt [of e how s]
    by (simp add: Let_def flag_simps)
  have T: "has F SVC_TEMPORARY = has (flags s) SVC_TEMPORARY"
    unfolding F_def flags_StopOrReset by (simp add: flag_simps)
  show ?thesis
    by (simp add: alt trace_NotifyStateChange trace_KillProcessGroup T SIGKILL_def SIGTERM_def)
qed


lemma has_flags_StopOrReset:
  "\<not> has (flags (StopOrReset e how s)) SVC_RESTARTING"
  "\<not> has (flags (StopOrReset e how s)) SVC_DISABLED_START"
  "how \<noteq> SVC_RESTART \<Longrightarrow> \<not> has (flags (StopOrReset e how s)) SVC_RESTART"
  "how \<noteq> SVC_RESTART \<Longrightarrow> how \<noteq> SVC_RESET \<Longrightarrow> has (flags (StopOrReset e how s)) SVC_DISABLED"
  "how = SVC_RESET \<Longrightarrow> has (flags s) SVC_RC_DISABLED \<Longrightarrow> has (flags (StopOrReset e how s)) SVC_DISABLED"
  "how = SVC_RESET \<Longrightarrow> \<not> has (flags s) SVC_RC_DISABLED \<Longrightarrow> has (flags (StopOrReset e how s)) SVC_RESET"
  "how = SVC_RESTART \<Longrightarrow> \<not> has (flags (StopOrReset e how s)) SVC_DISABLED"
  "how = SVC_RESTART \<Longrightarrow> \<not> has (flags (StopOrReset e how s)) SVC_RESET"
  "how = SVC_RESTART \<Longrightarrow> has (flags (StopOrReset e how s)) SVC_RESTART"
  by (simp_all add: flags_StopOrReset SVC_distinct) (simp_all add: flag_simps)

lemma StopOrReset_coerced:
  "how \<noteq> SVC_DISABLED \<Longrightarrow> how \<noteq> SVC_RESET \<Longrightarrow> how \<noteq> SVC_RESTART
     \<Longrightarrow> StopOrReset e how s = StopOrReset e SVC_DISABLED s"
  by (simp add: StopOrReset_alt SVC_distinct)

text \<open>
  C1, as the code has it. StopOrReset first clears RESTARTING and DISABLED_START; a \<open>how\<close>
  other than DISABLED, RESET and RESTART acts as DISABLED; DISABLED sets DISABLED and clears
  RESTART; RESET sets DISABLED when RC_DISABLED is set and RESET otherwise, and clears
  RESTART; RESTART sets RESTART and clears DISABLED and RESET. Afterwards, when the pid is
  not 0, SIGKILL goes to the process group unless the cgroup is already known to be empty,
  and the state \<open>stopping\<close> is published unless the service is TEMPORARY; when the pid is 0
  the state \<open>stopped\<close> is published unless the service is TEMPORARY. Nothing else is
  done, and the pid stays.
\<close>

theorem StopOrReset_transition:
  "(how \<noteq> SVC_DISABLED \<and> how \<noteq> SVC_RESET \<and> how \<noteq> SVC_RESTART
      \<longrightarrow> StopOrReset e how s = StopOrReset e SVC_DISABLED s)
   \<and> \<not> has (flags (StopOrReset e how s)) SVC_RESTARTING
   \<and> \<not> has (flags (StopOrReset e how s)) SVC_DISABLED_START
   \<and> (how \<noteq> SVC_RESET \<and> how \<noteq> SVC_RESTART
        \<longrightarrow> has (flags (StopOrReset e how s)) SVC_DISABLED
            \<and> \<not> has (flags (StopOrReset e how s)) SVC_RESTART)
   \<and> (how = SVC_RESET
        \<longrightarrow> (if has (flags s) SVC_RC_DISABLED
             then has (flags (StopOrReset e how s)) SVC_DISABLED
             else has (flags (StopOrReset e how s)) SVC_RESET)
            \<and> \<not> has (flags (StopOrReset e how s)) SVC_RESTART)
   \<and> (how = SVC_RESTART
        \<longrightarrow> \<not> has (flags (StopOrReset e how s)) SVC_DISABLED
            \<and> \<not> has (flags (StopOrReset e how s)) SVC_RESET
            \<and> has (flags (StopOrReset e how s)) SVC_RESTART)
   \<and> flags (StopOrReset e how s) =
        (if how = SVC_RESTART
         then ((flags s AND NOT (SVC_RESTARTING OR SVC_DISABLED_START)) OR SVC_RESTART)
                AND NOT (SVC_DISABLED OR SVC_RESET)
         else if how = SVC_RESET
         then ((flags s AND NOT (SVC_RESTARTING OR SVC_DISABLED_START))
                 OR (if has (flags s) SVC_RC_DISABLED then SVC_DISABLED else SVC_RESET))
                AND NOT SVC_RESTART
         else ((flags s AND NOT (SVC_RESTARTING OR SVC_DISABLED_START)) OR SVC_DISABLED)
                AND NOT SVC_RESTART)
   \<and> pid (StopOrReset e how s) = pid s
   \<and> trace (StopOrReset e how s) =
        trace s @
          (if pid s \<noteq> 0
           then (if process_cgroup_empty s then []
                 else [killProcessGroup (uid s) (pid s) SIGKILL])
                @ (if has (flags s) SVC_TEMPORARY then []
                   else [property_set (''init.svc.'' @ name s) ''stopping''])
           else (if has (flags s) SVC_TEMPORARY then []
                 else [property_set (''init.svc.'' @ name s) ''stopped'']))"
proof (intro conjI impI)
  show "flags (StopOrReset e how s) =
        (if how = SVC_RESTART
         then ((flags s AND NOT (SVC_RESTARTING OR SVC_DISABLED_START)) OR SVC_RESTART)
                AND NOT (SVC_DISABLED OR SVC_RESET)
         else if how = SVC_RESET
         then ((flags s AND NOT (SVC_RESTARTING OR SVC_DISABLED_START))
                 OR (if has (flags s) SVC_RC_DISABLED then SVC_DISABLED else SVC_RESET))
                AND NOT SVC_RESTART
         else ((flags s AND NOT (SVC_RESTARTING OR SVC_DISABLED_START)) OR SVC_DISABLED)
                AND NOT SVC_RESTART)"
    by (rule flags_StopOrReset)
  show "trace (StopOrReset e how s) =
        trace s @
          (if pid s \<noteq> 0
           then (if process_cgroup_empty s then []
                 else [killProcessGroup (uid s) (pid s) SIGKILL])
                @ (if has (flags s) SVC_TEMPORARY then []
                   else [property_set (''init.svc.'' @ name s) ''stopping''])
           else (if has (flags s) SVC_TEMPORARY then []
                 else [property_set (''init.svc.'' @ name s) ''stopped'']))"
    by (rule trace_StopOrReset)
  show "how = SVC_RESET \<Longrightarrow>
        if has (flags s) SVC_RC_DISABLED
        then has (flags (StopOrReset e how s)) SVC_DISABLED
        else has (flags (StopOrReset e how s)) SVC_RESET"
    by (simp add: has_flags_StopOrReset)
qed (simp_all add: has_flags_StopOrReset StopOrReset_coerced pid_StopOrReset SVC_distinct)

theorem StopOrReset_transition_witness:
  "has (flags (StopOrReset env0 SVC_RESET
                 (service0\<lparr>pid := 42, flags := SVC_RUNNING OR SVC_RESTARTING\<rparr>))) SVC_RESET
   \<and> \<not> has (flags (StopOrReset env0 SVC_RESET
                 (service0\<lparr>pid := 42, flags := SVC_RUNNING OR SVC_RESTARTING\<rparr>))) SVC_RESTARTING
   \<and> trace (StopOrReset env0 SVC_RESET
               (service0\<lparr>pid := 42, flags := SVC_RUNNING OR SVC_RESTARTING\<rparr>))
       = [killProcessGroup 0 42 9, property_set ''init.svc.svc'' ''stopping'']
   \<and> StopOrReset env0 SVC_RUNNING service0 = StopOrReset env0 SVC_DISABLED service0
   \<and> has (flags (StopOrReset env0 SVC_RUNNING service0)) SVC_DISABLED
   \<and> trace (StopOrReset env0 SVC_RUNNING service0) = [property_set ''init.svc.svc'' ''stopped'']
   \<and> \<not> has (flags (StopOrReset env0 SVC_RESTART
                 (service0\<lparr>pid := 42, flags := SVC_RUNNING OR SVC_DISABLED\<rparr>))) SVC_DISABLED"
proof -
  have d: "SVC_RUNNING \<noteq> SVC_DISABLED" "SVC_RUNNING \<noteq> SVC_RESET" "SVC_RUNNING \<noteq> SVC_RESTART"
    by (simp_all add: SVC_bits flag_bit_inject)
  show ?thesis
    using d
      StopOrReset_transition
        [of SVC_RESET env0 "service0\<lparr>pid := 42, flags := SVC_RUNNING OR SVC_RESTARTING\<rparr>"]
      StopOrReset_transition [of SVC_RUNNING env0 service0]
      StopOrReset_transition [of SVC_DISABLED env0 service0]
      StopOrReset_transition
        [of SVC_RESTART env0 "service0\<lparr>pid := 42, flags := SVC_RUNNING OR SVC_DISABLED\<rparr>"]
    by (simp add: service0_def SVC_distinct SIGKILL_def flag_simps)
qed

text \<open>
  C1 as stated fails for a TEMPORARY service, the kind \<open>exec\<close> creates: with pid 0 nothing
  is published.
\<close>

theorem StopOrReset_temporary_publishes_nothing:
  "pid (service0\<lparr>flags := SVC_ONESHOT OR SVC_TEMPORARY\<rparr>) = 0
   \<and> trace (StopOrReset env0 SVC_DISABLED (service0\<lparr>flags := SVC_ONESHOT OR SVC_TEMPORARY\<rparr>)) = []
   \<and> property_set ''init.svc.svc'' ''stopped''
        \<notin> set (trace (StopOrReset env0 SVC_DISABLED
                        (service0\<lparr>flags := SVC_ONESHOT OR SVC_TEMPORARY\<rparr>)))"
  by (simp add: trace_StopOrReset service0_def flag_simps)

subsection \<open>Start on a running service, and Enable\<close>

lemma has_clear_other: "\<not> has w m \<Longrightarrow> w AND NOT (m OR n) = w AND NOT n"
  by (auto simp add: has_def bit_eq_iff bit_simps)

lemma has_clear_self: "\<not> has w m \<Longrightarrow> w AND NOT m = w"
  by (auto simp add: has_def bit_eq_iff bit_simps)

lemma Start_deferred:
  "updatable s \<Longrightarrow> \<not> services_updated e
     \<Longrightarrow> Start e s = (Error NotUpdatedQueued, emit (DelayService (name s)) s)"
  by (simp add: Start_def)

lemma Start_running:
  assumes "has (flags s) SVC_RUNNING" and "\<not> (updatable s \<and> \<not> services_updated e)"
  shows "Start e s =
     (Success,
      s\<lparr>flags :=
          (if has (flags s) SVC_ONESHOT \<and> (has (flags s) SVC_DISABLED \<or> has (flags s) SVC_RESET)
           then (flags s AND NOT (SVC_DISABLED OR SVC_RESTARTING OR SVC_RESET OR SVC_RESTART
                                  OR SVC_DISABLED_START)) OR SVC_RESTART
           else flags s AND NOT (SVC_DISABLED OR SVC_RESTARTING OR SVC_RESET OR SVC_RESTART
                                 OR SVC_DISABLED_START))\<rparr>)"
proof -
  define f1 where "f1 = flags s AND NOT (SVC_DISABLED OR SVC_RESTARTING OR SVC_RESET OR SVC_RESTART
                                 OR SVC_DISABLED_START)"
  have R: "has f1 SVC_RUNNING" using assms(1) unfolding f1_def by (simp add: flag_simps)
  have O: "has f1 SVC_ONESHOT = has (flags s) SVC_ONESHOT" unfolding f1_def by (simp add: flag_simps)
  show ?thesis
    using assms(2) R O unfolding Start_def f1_def [symmetric]
    by (auto simp add: Let_def has_OR)
qed


text \<open>
  C6, as the code has it. Start on a service whose RUNNING flag is set, unless it queues an
  updatable service whose configuration is not loaded yet and fails, returns success
  without forking; of the service it changes only the flags: DISABLED, RESTARTING, RESET,
  RESTART and DISABLED_START are cleared, and RESTART is set again when the service is
  ONESHOT and DISABLED or RESET was set at entry. Every other flag and member stays, the
  pid among them, and no event happens.
\<close>

theorem Start_when_running:
  "has (flags s) SVC_RUNNING \<Longrightarrow>
     (if updatable s \<and> \<not> services_updated e
      then Start e s = (Error NotUpdatedQueued, emit (DelayService (name s)) s)
      else Start e s =
        (Success,
         s\<lparr>flags :=
             (if has (flags s) SVC_ONESHOT
                 \<and> (has (flags s) SVC_DISABLED \<or> has (flags s) SVC_RESET)
              then (flags s AND NOT (SVC_DISABLED OR SVC_RESTARTING OR SVC_RESET OR SVC_RESTART
                                     OR SVC_DISABLED_START)) OR SVC_RESTART
              else flags s AND NOT (SVC_DISABLED OR SVC_RESTARTING OR SVC_RESET OR SVC_RESTART
                                    OR SVC_DISABLED_START))\<rparr>))"
  using Start_deferred [of s e] Start_running [of s e] by (cases "updatable s \<and> \<not> services_updated e") simp_all

theorem Start_when_running_witness:
  "has (flags (service0\<lparr>pid := 42, flags := SVC_RUNNING OR SVC_ONESHOT OR SVC_DISABLED\<rparr>)) SVC_RUNNING
   \<and> Start env0 (service0\<lparr>pid := 42, flags := SVC_RUNNING OR SVC_ONESHOT OR SVC_DISABLED\<rparr>)
       = (Success, service0\<lparr>pid := 42, flags := SVC_RUNNING OR SVC_ONESHOT OR SVC_RESTART\<rparr>)"
proof -
  have h: "has (flags (service0\<lparr>pid := 42, flags := SVC_RUNNING OR SVC_ONESHOT OR SVC_DISABLED\<rparr>)) SVC_RUNNING"
    by (simp add: flag_simps)
  have f: "(SVC_RUNNING OR SVC_ONESHOT OR SVC_DISABLED) AND NOT (SVC_DISABLED OR SVC_RESTARTING OR SVC_RESET OR SVC_RESTART
                                     OR SVC_DISABLED_START) OR SVC_RESTART = SVC_RUNNING OR SVC_ONESHOT OR SVC_RESTART"
    by (simp add: SVC_DISABLED_def SVC_ONESHOT_def SVC_RUNNING_def SVC_RESTARTING_def
      SVC_RESET_def SVC_RESTART_def SVC_DISABLED_START_def)
  show ?thesis
    using h Start_when_running [OF h, of env0] f
    by (simp add: service0_def env0_def has_OR) (simp add: flag_simps)
qed

text \<open>
  C6 as stated fails: a running service that was stopped and not reaped yet has DISABLED
  set, and Start clears it although the service is not ONESHOT.
\<close>

theorem Start_when_running_changes_flags:
  "has (flags (service0\<lparr>pid := 42, flags := SVC_RUNNING OR SVC_DISABLED\<rparr>)) SVC_RUNNING
   \<and> \<not> has (flags (service0\<lparr>pid := 42, flags := SVC_RUNNING OR SVC_DISABLED\<rparr>)) SVC_ONESHOT
   \<and> fst (Start env0 (service0\<lparr>pid := 42, flags := SVC_RUNNING OR SVC_DISABLED\<rparr>)) = Success
   \<and> flags (snd (Start env0 (service0\<lparr>pid := 42, flags := SVC_RUNNING OR SVC_DISABLED\<rparr>)))
       = SVC_RUNNING
   \<and> flags (service0\<lparr>pid := 42, flags := SVC_RUNNING OR SVC_DISABLED\<rparr>) \<noteq> SVC_RUNNING"
proof -
  let ?s = "service0\<lparr>pid := 42, flags := SVC_RUNNING OR SVC_DISABLED\<rparr>"
  have h: "has (flags ?s) SVC_RUNNING" by (simp add: flag_simps)
  have o: "\<not> has (flags ?s) SVC_ONESHOT" by (simp add: flag_simps)
  have f: "(SVC_RUNNING OR SVC_DISABLED) AND NOT (SVC_DISABLED OR SVC_RESTARTING OR SVC_RESET OR SVC_RESTART
                                     OR SVC_DISABLED_START) = SVC_RUNNING"
    by (simp add: SVC_DISABLED_def SVC_RUNNING_def SVC_RESTARTING_def
      SVC_RESET_def SVC_RESTART_def SVC_DISABLED_START_def)
  have n: "SVC_RUNNING OR SVC_DISABLED \<noteq> SVC_RUNNING"
    by (simp add: SVC_DISABLED_def SVC_RUNNING_def)
  have u: "\<not> (updatable ?s \<and> \<not> services_updated env0)" by (simp add: service0_def)
  show ?thesis
    using h o n f by (simp add: Start_running [OF h u])
qed

lemma Enable_not_disabled:
  assumes "\<not> has (flags s) SVC_DISABLED"
  shows "Enable e s =
     (if has (flags s) SVC_DISABLED_START
      then Start e (s\<lparr>flags := flags s AND NOT SVC_RC_DISABLED\<rparr>)
      else (Success, s\<lparr>flags := flags s AND NOT SVC_RC_DISABLED\<rparr>))"
proof -
  have "has (flags s AND NOT SVC_RC_DISABLED) SVC_DISABLED_START = has (flags s) SVC_DISABLED_START"
    by (simp add: flag_simps)
  moreover have "flags s AND NOT (SVC_DISABLED OR SVC_RC_DISABLED) = flags s AND NOT SVC_RC_DISABLED"
    by (rule has_clear_other [OF assms])
  ultimately show ?thesis
    unfolding Enable_def Let_def by simp
qed

text \<open>
  C9, as the code has it. Enable on a service whose DISABLED flag is clear clears
  RC_DISABLED and no other flag, and calls Start exactly when DISABLED_START is set. With
  DISABLED_START clear it returns success, does not call Start, and a second Enable changes
  nothing more; with RC_DISABLED clear as well it leaves the service as it is.
\<close>

theorem Enable_when_not_disabled:
  "\<not> has (flags s) SVC_DISABLED \<Longrightarrow>
     Enable e s =
       (if has (flags s) SVC_DISABLED_START
        then Start e (s\<lparr>flags := flags s AND NOT SVC_RC_DISABLED\<rparr>)
        else (Success, s\<lparr>flags := flags s AND NOT SVC_RC_DISABLED\<rparr>))
     \<and> (\<not> has (flags s) SVC_DISABLED_START
          \<longrightarrow> Enable e (snd (Enable e s)) = Enable e s)
     \<and> (\<not> has (flags s) SVC_DISABLED_START \<and> \<not> has (flags s) SVC_RC_DISABLED
          \<longrightarrow> Enable e s = (Success, s))"
proof (intro conjI impI)
  assume d: "\<not> has (flags s) SVC_DISABLED"
  show "Enable e s =
       (if has (flags s) SVC_DISABLED_START
        then Start e (s\<lparr>flags := flags s AND NOT SVC_RC_DISABLED\<rparr>)
        else (Success, s\<lparr>flags := flags s AND NOT SVC_RC_DISABLED\<rparr>))"
    by (rule Enable_not_disabled [OF d])
  {
    assume ds: "\<not> has (flags s) SVC_DISABLED_START"
    let ?s1 = "s\<lparr>flags := flags s AND NOT SVC_RC_DISABLED\<rparr>"
    have e1: "Enable e s = (Success, ?s1)"
      using ds by (simp add: Enable_not_disabled [OF d])
    have d1: "\<not> has (flags ?s1) SVC_DISABLED" using d by (simp add: flag_simps)
    have ds1: "\<not> has (flags ?s1) SVC_DISABLED_START" using ds by (simp add: flag_simps)
    have "Enable e ?s1 = (Success, ?s1)"
      using ds1 by (simp add: Enable_not_disabled [OF d1])
    then show "Enable e (snd (Enable e s)) = Enable e s"
      by (simp add: e1)
  }
  {
    assume a: "\<not> has (flags s) SVC_DISABLED_START \<and> \<not> has (flags s) SVC_RC_DISABLED"
    then show "Enable e s = (Success, s)"
      by (simp add: Enable_not_disabled [OF d] has_clear_self)
  }
qed

theorem Enable_when_not_disabled_witness:
  "\<not> has (flags (service0\<lparr>pid := 42, flags := SVC_RUNNING\<rparr>)) SVC_DISABLED
   \<and> Enable env0 (service0\<lparr>pid := 42, flags := SVC_RUNNING\<rparr>)
       = (Success, service0\<lparr>pid := 42, flags := SVC_RUNNING\<rparr>)"
proof -
  let ?s = "service0\<lparr>pid := 42, flags := SVC_RUNNING\<rparr>"
  have d: "\<not> has (flags ?s) SVC_DISABLED" by (simp add: flag_simps)
  have o: "\<not> has (flags ?s) SVC_DISABLED_START \<and> \<not> has (flags ?s) SVC_RC_DISABLED"
    by (simp add: flag_simps)
  show ?thesis
    using d o Enable_when_not_disabled [OF d, of env0] by (simp add: has_clear_self)
qed

text \<open>
  C9 as stated fails: a service declared disabled and started by hand runs with
  RC_DISABLED set and DISABLED clear, and Enable clears RC_DISABLED.
\<close>

theorem Enable_clears_RC_DISABLED:
  "\<not> has (flags (service0\<lparr>pid := 42, flags := SVC_RUNNING OR SVC_RC_DISABLED\<rparr>)) SVC_DISABLED
   \<and> flags (snd (Enable env0 (service0\<lparr>pid := 42, flags := SVC_RUNNING OR SVC_RC_DISABLED\<rparr>)))
       = SVC_RUNNING
   \<and> flags (service0\<lparr>pid := 42, flags := SVC_RUNNING OR SVC_RC_DISABLED\<rparr>) \<noteq> SVC_RUNNING"
proof -
  let ?s = "service0\<lparr>pid := 42, flags := SVC_RUNNING OR SVC_RC_DISABLED\<rparr>"
  have d: "\<not> has (flags ?s) SVC_DISABLED" by (simp add: flag_simps)
  have ds: "\<not> has (flags ?s) SVC_DISABLED_START" by (simp add: flag_simps)
  have f: "(SVC_RUNNING OR SVC_RC_DISABLED) AND NOT SVC_RC_DISABLED = SVC_RUNNING"
    by (simp add: SVC_RUNNING_def SVC_RC_DISABLED_def)
  have n: "SVC_RUNNING OR SVC_RC_DISABLED \<noteq> SVC_RUNNING"
    by (simp add: SVC_RUNNING_def SVC_RC_DISABLED_def)
  show ?thesis
    using d ds f n by (simp add: Enable_not_disabled [OF d])
qed

subsection \<open>Reap\<close>

lemma KillProcessGroup_eq:
  "KillProcessGroup e sig s =
     s\<lparr>trace := trace s @ (if process_cgroup_empty s then []
                           else if sig = SIGTERM then [killProcessGroupOnce (uid s) (pid s) sig]
                           else [killProcessGroup (uid s) (pid s) sig]),
       process_cgroup_empty := (process_cgroup_empty s \<or> kill_result e = 0)\<rparr>"
  by (simp add: KillProcessGroup_def emit_def Let_def)

lemma NotifyStateChange_eq:
  "NotifyStateChange e st s =
     s\<lparr>trace := trace s @
         (if has (flags s) SVC_TEMPORARY then []
          else property_set (''init.svc.'' @ name s) st
               # (if st = ''running'' \<and> boottime_unset e
                  then [property_set (''ro.boottime.'' @ name s) (to_string (unat (time_started s)))]
                  else []))\<rparr>"
  by (simp add: NotifyStateChange_def emit_def Let_def)

lemma crash_policy_fields [simp]:
  "pid (snd (crash_policy e s)) = pid s"
  "flags (snd (crash_policy e s)) = flags s"
  "start_order (snd (crash_policy e s)) = start_order s"
  "name (snd (crash_policy e s)) = name s"
  by (simp_all add: crash_policy_def Let_def emit_def)

text \<open>
  Reap in two states: \<open>s4\<close> at line 241, after the part every service goes through, and
  \<open>s6\<close> at line 253, after the ONESHOT rule.
\<close>

lemma Reap_cases:
  obtains s4 s6 where
    "flags s4 = flags s AND NOT SVC_EXEC" and "pid s4 = pid s"
    and "start_order s4 = start_order s" and "crash_count s4 = crash_count s"
    and "time_crashed s4 = time_crashed s"
    and "trace s4 = trace s
           @ (if (\<not> has (flags s) SVC_ONESHOT \<or> has (flags s) SVC_RESTART)
                 \<and> \<not> process_cgroup_empty s
              then [killProcessGroup (uid s) (pid s) SIGKILL] else [])
           @ map DescriptorClean (descriptors s)
           @ map reap_callback [0 ..< reap_callbacks s]"
    and "pid s6 = 0" and "start_order s6 = 0"
    and "flags s6 =
          (if has (flags s) SVC_ONESHOT \<and> \<not> has (flags s) SVC_RESTART \<and> \<not> has (flags s) SVC_RESET
           then (flags s AND NOT SVC_EXEC) AND NOT SVC_RUNNING OR SVC_DISABLED
           else (flags s AND NOT SVC_EXEC) AND NOT SVC_RUNNING)"
    and "name s6 = name s" and "crash_count s6 = crash_count s"
    and "time_crashed s6 = time_crashed s" and "pre_apexd s6 = pre_apexd s"
    and "trace s6 = trace s4"
    and "Reap e s =
          (if has (flags s) SVC_TEMPORARY then (Returned, s4)
           else if has (flags s6) (SVC_DISABLED OR SVC_RESET)
           then (Returned, NotifyStateChange e ''stopped'' s6)
           else
             (case crash_policy e s6 of
                (Aborted, s7) \<Rightarrow> (Aborted, s7)
              | (Returned, s7) \<Rightarrow>
                  (Returned,
                   NotifyStateChange e ''restarting''
                     (emit onrestart_ExecuteAllCommands
                        (s7\<lparr>flags := flags s7 AND NOT SVC_RESTART OR SVC_RESTARTING\<rparr>)))))"
proof -
  define s1 where "s1 = (if \<not> has (flags s) SVC_ONESHOT \<or> has (flags s) SVC_RESTART
                then KillProcessGroup e SIGKILL s else s)"
  define s2 where "s2 = s1\<lparr>trace := trace s1 @ map DescriptorClean (descriptors s1)\<rparr>"
  define s3 where "s3 = s2\<lparr>trace := trace s2 @ map reap_callback [0 ..< reap_callbacks s2]\<rparr>"
  define s4 where "s4 = (if has (flags s3) SVC_EXEC then UnSetExec s3 else s3)"
  define s5 where "s5 = s4\<lparr>pid := 0, flags := flags s4 AND NOT SVC_RUNNING, start_order := 0\<rparr>"
  define s6 where "s6 = (if has (flags s5) SVC_ONESHOT \<and> \<not> has (flags s5) SVC_RESTART
                         \<and> \<not> has (flags s5) SVC_RESET
                      then s5\<lparr>flags := flags s5 OR SVC_DISABLED\<rparr> else s5)"
  have reap: "Reap e s =
          (if has (flags s4) SVC_TEMPORARY then (Returned, s4)
           else if has (flags s6) (SVC_DISABLED OR SVC_RESET)
           then (Returned, NotifyStateChange e ''stopped'' s6)
           else
             (case crash_policy e s6 of
                (Aborted, s7) \<Rightarrow> (Aborted, s7)
              | (Returned, s7) \<Rightarrow>
                  (Returned,
                   NotifyStateChange e ''restarting''
                     (emit onrestart_ExecuteAllCommands
                        (s7\<lparr>flags := flags s7 AND NOT SVC_RESTART OR SVC_RESTARTING\<rparr>)))))"
    unfolding Reap_def s6_def s5_def s4_def s3_def s2_def s1_def Let_def by (rule refl)
  have f1: "flags s1 = flags s" "pid s1 = pid s" "start_order s1 = start_order s"
    "name s1 = name s" "crash_count s1 = crash_count s" "time_crashed s1 = time_crashed s"
    "pre_apexd s1 = pre_apexd s" "descriptors s1 = descriptors s"
    "reap_callbacks s1 = reap_callbacks s"
    by (simp_all add: s1_def KillProcessGroup_eq)
  have t1: "trace s1 = trace s
           @ (if (\<not> has (flags s) SVC_ONESHOT \<or> has (flags s) SVC_RESTART)
                 \<and> \<not> process_cgroup_empty s
              then [killProcessGroup (uid s) (pid s) SIGKILL] else [])"
    by (simp add: s1_def KillProcessGroup_eq SIGKILL_def SIGTERM_def)
  have f3: "flags s3 = flags s" "pid s3 = pid s" "start_order s3 = start_order s"
    "name s3 = name s" "crash_count s3 = crash_count s" "time_crashed s3 = time_crashed s"
    "pre_apexd s3 = pre_apexd s"
    "trace s3 = trace s1 @ map DescriptorClean (descriptors s) @ map reap_callback [0 ..< reap_callbacks s]"
    by (simp_all add: s3_def s2_def f1)
  have f4: "flags s4 = flags s AND NOT SVC_EXEC" "pid s4 = pid s" "start_order s4 = start_order s"
    "name s4 = name s" "crash_count s4 = crash_count s" "time_crashed s4 = time_crashed s"
    "pre_apexd s4 = pre_apexd s" "trace s4 = trace s3"
    by (simp_all add: s4_def UnSetExec_def f3 has_clear_self)
  have T: "has (flags s4) SVC_TEMPORARY = has (flags s) SVC_TEMPORARY"
    by (simp add: f4 flag_simps)
  have f5: "flags s5 = (flags s AND NOT SVC_EXEC) AND NOT SVC_RUNNING" "pid s5 = 0"
    "start_order s5 = 0"
    "name s5 = name s" "crash_count s5 = crash_count s" "time_crashed s5 = time_crashed s"
    "pre_apexd s5 = pre_apexd s" "trace s5 = trace s4"
    by (simp_all add: s5_def f4)
  have h5: "has (flags s5) SVC_ONESHOT = has (flags s) SVC_ONESHOT"
    "has (flags s5) SVC_RESTART = has (flags s) SVC_RESTART"
    "has (flags s5) SVC_RESET = has (flags s) SVC_RESET"
    by (simp_all add: f5 flag_simps)
  have f6: "pid s6 = 0"
    "start_order s6 = 0"
    "name s6 = name s" "crash_count s6 = crash_count s" "time_crashed s6 = time_crashed s"
    "pre_apexd s6 = pre_apexd s" "trace s6 = trace s4"
    by (simp_all add: s6_def f5)
  have g6: "flags s6 =
          (if has (flags s) SVC_ONESHOT \<and> \<not> has (flags s) SVC_RESTART \<and> \<not> has (flags s) SVC_RESET
           then (flags s AND NOT SVC_EXEC) AND NOT SVC_RUNNING OR SVC_DISABLED
           else (flags s AND NOT SVC_EXEC) AND NOT SVC_RUNNING)"
    unfolding s6_def h5 by (simp add: f5)
  show thesis
  proof (rule that [of s4 s6])
    show "trace s4 = trace s
           @ (if (\<not> has (flags s) SVC_ONESHOT \<or> has (flags s) SVC_RESTART)
                 \<and> \<not> process_cgroup_empty s
              then [killProcessGroup (uid s) (pid s) SIGKILL] else [])
           @ map DescriptorClean (descriptors s)
           @ map reap_callback [0 ..< reap_callbacks s]"
      by (simp add: f4 f3 t1)
    show "Reap e s =
          (if has (flags s) SVC_TEMPORARY then (Returned, s4)
           else if has (flags s6) (SVC_DISABLED OR SVC_RESET)
           then (Returned, NotifyStateChange e ''stopped'' s6)
           else
             (case crash_policy e s6 of
                (Aborted, s7) \<Rightarrow> (Aborted, s7)
              | (Returned, s7) \<Rightarrow>
                  (Returned,
                   NotifyStateChange e ''restarting''
                     (emit onrestart_ExecuteAllCommands
                        (s7\<lparr>flags := flags s7 AND NOT SVC_RESTART OR SVC_RESTARTING\<rparr>)))))"
      using reap unfolding T .
  qed (fact f4 f6 g6)+
qed

subsection \<open>Reap: the crash accounting, and TEMPORARY services\<close>

lemma crash_policy_eq:
  "crash_policy e s =
     (if (has (flags s) SVC_CRITICAL \<or> (\<not> pre_apexd s \<and> is_apex_updatable e))
         \<and> \<not> has (flags s) SVC_RESTART
      then
        (if sint (now e) < sint (time_crashed s + four_minutes) \<or> \<not> boot_completed e
         then
           (if sint (crash_count s + 1) > 4
            then (if has (flags s) SVC_CRITICAL
                  then (Aborted, s\<lparr>crash_count := crash_count s + 1,
                                   trace := trace s @ [LOG_FATAL (''critical process '' @ name s)]\<rparr>)
                  else (Returned, s\<lparr>crash_count := crash_count s + 1,
                                    trace := trace s @ [property_set ''ro.init.updatable_crashing'' ''1'']\<rparr>))
            else (Returned, s\<lparr>crash_count := crash_count s + 1\<rparr>))
         else (Returned, s\<lparr>time_crashed := now e, crash_count := 1\<rparr>))
      else (Returned, s))"
  by (simp add: crash_policy_def Let_def emit_def)

lemma Reap_crash_step:
  assumes "runs_crash_policy e s"
  shows
   "if sint (now e) < sint (time_crashed s + four_minutes) \<or> \<not> boot_completed e
    then crash_count (snd (Reap e s)) = crash_count s + 1
         \<and> time_crashed (snd (Reap e s)) = time_crashed s
         \<and> (if sint (crash_count s + 1) > 4
             then (if has (flags s) SVC_CRITICAL
                   then fst (Reap e s) = Aborted
                        \<and> trace (snd (Reap e s)) =
                            trace s
                            @ (if process_cgroup_empty s then []
                               else [killProcessGroup (uid s) (pid s) SIGKILL])
                            @ map DescriptorClean (descriptors s)
                            @ map reap_callback [0 ..< reap_callbacks s]
                            @ [LOG_FATAL (''critical process '' @ name s)]
                   else fst (Reap e s) = Returned
                        \<and> trace (snd (Reap e s)) =
                            trace s
                            @ (if process_cgroup_empty s then []
                               else [killProcessGroup (uid s) (pid s) SIGKILL])
                            @ map DescriptorClean (descriptors s)
                            @ map reap_callback [0 ..< reap_callbacks s]
                            @ [property_set ''ro.init.updatable_crashing'' ''1'',
                               onrestart_ExecuteAllCommands,
                               property_set (''init.svc.'' @ name s) ''restarting''])
             else fst (Reap e s) = Returned
                  \<and> trace (snd (Reap e s)) =
                      trace s
                      @ (if process_cgroup_empty s then []
                         else [killProcessGroup (uid s) (pid s) SIGKILL])
                      @ map DescriptorClean (descriptors s)
                      @ map reap_callback [0 ..< reap_callbacks s]
                      @ [onrestart_ExecuteAllCommands,
                         property_set (''init.svc.'' @ name s) ''restarting''])
    else fst (Reap e s) = Returned
         \<and> time_crashed (snd (Reap e s)) = now e
         \<and> crash_count (snd (Reap e s)) = 1
         \<and> trace (snd (Reap e s)) =
             trace s
             @ (if process_cgroup_empty s then []
                else [killProcessGroup (uid s) (pid s) SIGKILL])
             @ map DescriptorClean (descriptors s)
             @ map reap_callback [0 ..< reap_callbacks s]
             @ [onrestart_ExecuteAllCommands,
                property_set (''init.svc.'' @ name s) ''restarting'']"
proof -
  from assms have P: "\<not> has (flags s) SVC_TEMPORARY" "\<not> has (flags s) SVC_ONESHOT"
    "\<not> has (flags s) SVC_DISABLED" "\<not> has (flags s) SVC_RESET" "\<not> has (flags s) SVC_RESTART"
    "has (flags s) SVC_CRITICAL \<or> (\<not> pre_apexd s \<and> is_apex_updatable e)"
    by (simp_all add: runs_crash_policy_def)
  obtain s4 s6 where
    t4: "trace s4 = trace s
           @ (if (\<not> has (flags s) SVC_ONESHOT \<or> has (flags s) SVC_RESTART)
                 \<and> \<not> process_cgroup_empty s
              then [killProcessGroup (uid s) (pid s) SIGKILL] else [])
           @ map DescriptorClean (descriptors s)
           @ map reap_callback [0 ..< reap_callbacks s]"
    and f6: "flags s6 =
          (if has (flags s) SVC_ONESHOT \<and> \<not> has (flags s) SVC_RESTART \<and> \<not> has (flags s) SVC_RESET
           then (flags s AND NOT SVC_EXEC) AND NOT SVC_RUNNING OR SVC_DISABLED
           else (flags s AND NOT SVC_EXEC) AND NOT SVC_RUNNING)"
    and m6: "name s6 = name s" "crash_count s6 = crash_count s"
      "time_crashed s6 = time_crashed s" "pre_apexd s6 = pre_apexd s"
    and tr6: "trace s6 = trace s4"
    and reap: "Reap e s =
          (if has (flags s) SVC_TEMPORARY then (Returned, s4)
           else if has (flags s6) (SVC_DISABLED OR SVC_RESET)
           then (Returned, NotifyStateChange e ''stopped'' s6)
           else
             (case crash_policy e s6 of
                (Aborted, s7) \<Rightarrow> (Aborted, s7)
              | (Returned, s7) \<Rightarrow>
                  (Returned,
                   NotifyStateChange e ''restarting''
                     (emit onrestart_ExecuteAllCommands
                        (s7\<lparr>flags := flags s7 AND NOT SVC_RESTART OR SVC_RESTARTING\<rparr>)))))"
    by (rule Reap_cases [of s e]) blast
  have g6: "flags s6 = (flags s AND NOT SVC_EXEC) AND NOT SVC_RUNNING"
    using P by (simp add: f6)
  have h6: "\<not> has (flags s6) (SVC_DISABLED OR SVC_RESET)" "\<not> has (flags s6) SVC_RESTART"
    "has (flags s6) SVC_CRITICAL = has (flags s) SVC_CRITICAL"
    "\<not> has (flags s6 AND NOT SVC_RESTART OR SVC_RESTARTING) SVC_TEMPORARY"
    using P by (simp_all add: g6 flag_simps)
  have reap': "Reap e s =
             (case crash_policy e s6 of
                (Aborted, s7) \<Rightarrow> (Aborted, s7)
              | (Returned, s7) \<Rightarrow>
                  (Returned,
                   NotifyStateChange e ''restarting''
                     (emit onrestart_ExecuteAllCommands
                        (s7\<lparr>flags := flags s7 AND NOT SVC_RESTART OR SVC_RESTARTING\<rparr>))))"
    using reap P h6 by simp
  have t6: "trace s6 = trace s
           @ (if process_cgroup_empty s then [] else [killProcessGroup (uid s) (pid s) SIGKILL])
           @ map DescriptorClean (descriptors s)
           @ map reap_callback [0 ..< reap_callbacks s]"
    using P by (simp add: tr6 t4)
  show ?thesis
    unfolding reap' crash_policy_eq [of e s6]
    using P(6) h6 by (auto simp add: m6 t6 NotifyStateChange_eq emit_def)
qed


lemma Reap_after_crash_policy:
  assumes "runs_crash_policy e s" and "fst (Reap e s) = Returned"
  shows "flags (snd (Reap e s)) =
           ((flags s AND NOT SVC_EXEC) AND NOT SVC_RUNNING) AND NOT SVC_RESTART OR SVC_RESTARTING"
    and "pre_apexd (snd (Reap e s)) = pre_apexd s"
proof -
  from assms have P: "\<not> has (flags s) SVC_TEMPORARY" "\<not> has (flags s) SVC_ONESHOT"
    "\<not> has (flags s) SVC_DISABLED" "\<not> has (flags s) SVC_RESET" "\<not> has (flags s) SVC_RESTART"
    by (simp_all add: runs_crash_policy_def)
  obtain s4 s6 where
    f6: "flags s6 =
          (if has (flags s) SVC_ONESHOT \<and> \<not> has (flags s) SVC_RESTART \<and> \<not> has (flags s) SVC_RESET
           then (flags s AND NOT SVC_EXEC) AND NOT SVC_RUNNING OR SVC_DISABLED
           else (flags s AND NOT SVC_EXEC) AND NOT SVC_RUNNING)"
    and m6: "pre_apexd s6 = pre_apexd s"
    and reap: "Reap e s =
          (if has (flags s) SVC_TEMPORARY then (Returned, s4)
           else if has (flags s6) (SVC_DISABLED OR SVC_RESET)
           then (Returned, NotifyStateChange e ''stopped'' s6)
           else
             (case crash_policy e s6 of
                (Aborted, s7) \<Rightarrow> (Aborted, s7)
              | (Returned, s7) \<Rightarrow>
                  (Returned,
                   NotifyStateChange e ''restarting''
                     (emit onrestart_ExecuteAllCommands
                        (s7\<lparr>flags := flags s7 AND NOT SVC_RESTART OR SVC_RESTARTING\<rparr>)))))"
    by (rule Reap_cases [of s e]) blast
  have g6: "flags s6 = (flags s AND NOT SVC_EXEC) AND NOT SVC_RUNNING"
    using P by (simp add: f6)
  have h6: "\<not> has (flags s6) (SVC_DISABLED OR SVC_RESET)"
    using P by (simp_all add: g6 flag_simps)
  obtain oc s7 where cp: "crash_policy e s6 = (oc, s7)" by (cases "crash_policy e s6")
  have reap': "Reap e s =
             (case oc of Aborted \<Rightarrow> (Aborted, s7)
              | Returned \<Rightarrow>
                  (Returned,
                   NotifyStateChange e ''restarting''
                     (emit onrestart_ExecuteAllCommands
                        (s7\<lparr>flags := flags s7 AND NOT SVC_RESTART OR SVC_RESTARTING\<rparr>))))"
    using reap P h6 by (simp add: cp split: outcome.splits)
  have oc: "oc = Returned"
    using assms(2) unfolding reap' by (cases oc) simp_all
  have s7: "flags s7 = flags s6" using crash_policy_fields(2) [of e s6] by (simp add: cp)
  have p7: "pre_apexd s7 = pre_apexd s6"
    using cp by (auto simp add: crash_policy_eq split: if_splits)
  show "flags (snd (Reap e s)) =
           ((flags s AND NOT SVC_EXEC) AND NOT SVC_RUNNING) AND NOT SVC_RESTART OR SVC_RESTARTING"
    unfolding reap' oc by (simp add: NotifyStateChange_eq emit_def s7 g6)
  show "pre_apexd (snd (Reap e s)) = pre_apexd s"
    unfolding reap' oc by (simp add: NotifyStateChange_eq emit_def p7 m6)
qed

lemma Reap_keeps_crash_policy:
  assumes "runs_crash_policy e s" and "fst (Reap e s) = Returned"
  shows "runs_crash_policy e' (snd (Reap e s)) = runs_crash_policy e' s"
proof -
  from assms have P: "\<not> has (flags s) SVC_TEMPORARY" "\<not> has (flags s) SVC_ONESHOT"
    "\<not> has (flags s) SVC_DISABLED" "\<not> has (flags s) SVC_RESET" "\<not> has (flags s) SVC_RESTART"
    by (simp_all add: runs_crash_policy_def)
  show ?thesis
    unfolding runs_crash_policy_def Reap_after_crash_policy [OF assms]
    using P by (simp add: flag_simps)
qed

text \<open>What a Reap that does not run the crash accounting leaves alone.\<close>

lemma Reap_without_crash_policy:
  assumes "\<not> runs_crash_policy e s"
  shows "crash_count (snd (Reap e s)) = crash_count s"
    and "time_crashed (snd (Reap e s)) = time_crashed s"
    and "fst (Reap e s) = Returned"
proof -
  obtain s4 s6 where
    f4: "crash_count s4 = crash_count s" "time_crashed s4 = time_crashed s"
    and f6: "flags s6 =
          (if has (flags s) SVC_ONESHOT \<and> \<not> has (flags s) SVC_RESTART \<and> \<not> has (flags s) SVC_RESET
           then (flags s AND NOT SVC_EXEC) AND NOT SVC_RUNNING OR SVC_DISABLED
           else (flags s AND NOT SVC_EXEC) AND NOT SVC_RUNNING)"
    and m6: "crash_count s6 = crash_count s"
      "time_crashed s6 = time_crashed s" "pre_apexd s6 = pre_apexd s"
    and reap: "Reap e s =
          (if has (flags s) SVC_TEMPORARY then (Returned, s4)
           else if has (flags s6) (SVC_DISABLED OR SVC_RESET)
           then (Returned, NotifyStateChange e ''stopped'' s6)
           else
             (case crash_policy e s6 of
                (Aborted, s7) \<Rightarrow> (Aborted, s7)
              | (Returned, s7) \<Rightarrow>
                  (Returned,
                   NotifyStateChange e ''restarting''
                     (emit onrestart_ExecuteAllCommands
                        (s7\<lparr>flags := flags s7 AND NOT SVC_RESTART OR SVC_RESTARTING\<rparr>)))))"
    by (rule Reap_cases [of s e]) blast
  consider (temp) "has (flags s) SVC_TEMPORARY"
    | (stopped) "\<not> has (flags s) SVC_TEMPORARY" "has (flags s6) (SVC_DISABLED OR SVC_RESET)"
    | (restart) "\<not> has (flags s) SVC_TEMPORARY" "\<not> has (flags s6) (SVC_DISABLED OR SVC_RESET)"
    by blast
  then have "crash_count (snd (Reap e s)) = crash_count s
      \<and> time_crashed (snd (Reap e s)) = time_crashed s \<and> fst (Reap e s) = Returned"
  proof cases
    case temp
    then show ?thesis by (simp add: reap f4)
  next
    case stopped
    then show ?thesis by (simp add: reap m6 NotifyStateChange_eq)
  next
    case restart
    have one: "\<not> (has (flags s) SVC_ONESHOT \<and> \<not> has (flags s) SVC_RESTART \<and> \<not> has (flags s) SVC_RESET)"
      using restart(2) unfolding f6 by (auto simp add: flag_simps split: if_splits)
    then have g6: "flags s6 = (flags s AND NOT SVC_EXEC) AND NOT SVC_RUNNING"
      unfolding f6 by auto
    have dr: "\<not> has (flags s) SVC_DISABLED" "\<not> has (flags s) SVC_RESET"
      using restart(2) unfolding g6 by (simp_all add: flag_simps)
    have h6: "has (flags s6) SVC_CRITICAL = has (flags s) SVC_CRITICAL"
      "has (flags s6) SVC_RESTART = has (flags s) SVC_RESTART"
      by (simp_all add: g6 flag_simps)
    have no: "\<not> ((has (flags s6) SVC_CRITICAL \<or> (\<not> pre_apexd s6 \<and> is_apex_updatable e))
         \<and> \<not> has (flags s6) SVC_RESTART)"
      using assms restart(1) one dr unfolding runs_crash_policy_def h6 m6 by blast
    have "crash_policy e s6 = (Returned, s6)"
      unfolding crash_policy_eq by (rule if_not_P [OF no])
    then show ?thesis
      using restart by (simp add: reap m6 NotifyStateChange_eq emit_def)
  qed
  then show "crash_count (snd (Reap e s)) = crash_count s"
    and "time_crashed (snd (Reap e s)) = time_crashed s"
    and "fst (Reap e s) = Returned"
    by simp_all
qed


lemma apply_op_Reap_Returned:
  "fst (Reap e s) = Returned \<Longrightarrow> apply_op OpReap e s = Some (snd (Reap e s))"
  by (cases "Reap e s") (simp split: outcome.splits)

lemma four_minutes_ns: "four_minutes = 240000000000"
  by (simp add: four_minutes_def)

text \<open>
  \<open>++crash_count_\<close> on the \<open>int\<close>: below \<open>INT_MAX\<close> the signed value goes up by one, at
  \<open>INT_MAX\<close> it wraps to \<open>INT_MIN\<close>; so the incremented count is above 4 exactly when the
  old one is above 3 and is not \<open>INT_MAX\<close>.
\<close>

lemma sint_incr:
  fixes w :: "32 word"
  assumes "sint w < 2147483647"
  shows "sint (w + 1) = sint w + 1"
proof -
  have lo: "- 2147483648 \<le> sint w" using sint_ge [of w] by simp
  have "sint (w + 1) = signed_take_bit 31 (sint w + 1)"
    by (simp add: sint_word_ariths)
  also have "\<dots> = sint w + 1"
    using lo assms by (intro signed_take_bit_int_eq_self) simp_all
  finally show ?thesis .
qed

lemma sint_incr_INT_MAX:
  fixes w :: "32 word"
  assumes "sint w = 2147483647"
  shows "sint (w + 1) = - 2147483648"
proof -
  have "word_of_int (sint w) = w" by simp
  then have "w = 2147483647" unfolding assms by simp
  then show ?thesis by simp
qed

lemma incremented_count_above_4:
  fixes w :: "32 word"
  shows "(4 < sint (w + 1)) = (3 < sint w \<and> sint w \<noteq> 2147483647)"
proof (cases "sint w = 2147483647")
  case True
  then show ?thesis by (simp add: sint_incr_INT_MAX)
next
  case False
  moreover have "sint w \<le> 2147483647" using sint_lt [of w] by simp
  ultimately have "sint w < 2147483647" by simp
  then show ?thesis using False by (simp add: sint_incr) arith
qed

lemma small_count:
  assumes "k < 4"
  shows "\<not> 4 < sint (of_nat k + 1 :: 32 word)"
proof -
  from assms have "k = 0 \<or> k = 1 \<or> k = 2 \<or> k = 3" by auto
  then show ?thesis by auto
qed

lemma crashes_allowed:
  assumes "\<forall>e\<in>set es. runs_crash_policy e s
              \<and> (sint (now e) < sint (time_crashed s + four_minutes) \<or> \<not> boot_completed e)"
    and "crash_count s = of_nat k" and "k + length es \<le> 4"
  shows "\<exists>s'. run (map (Pair OpReap) es) s = Some s'
            \<and> crash_count s' = of_nat (k + length es)
            \<and> time_crashed s' = time_crashed s
            \<and> (\<forall>e'. runs_crash_policy e' s' = runs_crash_policy e' s)
            \<and> has (flags s') SVC_CRITICAL = has (flags s) SVC_CRITICAL
            \<and> (property_set ''ro.init.updatable_crashing'' ''1'' \<in> set (trace s')
                 \<longrightarrow> property_set ''ro.init.updatable_crashing'' ''1'' \<in> set (trace s))"
  using assms
proof (induction es arbitrary: s k)
  case Nil
  then show ?case by simp
next
  case (Cons e es)
  from Cons.prems have rp: "runs_crash_policy e s"
    and w: "sint (now e) < sint (time_crashed s + four_minutes) \<or> \<not> boot_completed e"
    and k: "k < 4"
    by simp_all
  have small: "\<not> sint (crash_count s + 1) > 4"
    unfolding Cons.prems(2) by (rule small_count [OF k])
  let ?s1 = "snd (Reap e s)"
  from Reap_crash_step [OF rp] w small
  have step: "crash_count ?s1 = crash_count s + 1" "time_crashed ?s1 = time_crashed s"
    "fst (Reap e s) = Returned"
    "trace ?s1 = trace s
                      @ (if process_cgroup_empty s then []
                         else [killProcessGroup (uid s) (pid s) SIGKILL])
                      @ map DescriptorClean (descriptors s)
                      @ map reap_callback [0 ..< reap_callbacks s]
                      @ [onrestart_ExecuteAllCommands,
                         property_set (''init.svc.'' @ name s) ''restarting'']"
    by simp_all
  have keep: "\<And>e'. runs_crash_policy e' ?s1 = runs_crash_policy e' s"
    by (rule Reap_keeps_crash_policy [OF rp step(3)])
  have "\<forall>e'\<in>set es. runs_crash_policy e' ?s1
              \<and> (sint (now e') < sint (time_crashed ?s1 + four_minutes) \<or> \<not> boot_completed e')"
    using Cons.prems(1) by (simp add: keep step(2))
  moreover have "crash_count ?s1 = of_nat (Suc k)"
    by (simp add: step(1) Cons.prems(2))
  moreover have "Suc k + length es \<le> 4"
    using Cons.prems(3) by simp
  ultimately obtain s' where s': "run (map (Pair OpReap) es) ?s1 = Some s'"
    "crash_count s' = of_nat (Suc k + length es)"
    "time_crashed s' = time_crashed ?s1"
    "\<forall>e'. runs_crash_policy e' s' = runs_crash_policy e' ?s1"
    "has (flags s') SVC_CRITICAL = has (flags ?s1) SVC_CRITICAL"
    "property_set ''ro.init.updatable_crashing'' ''1'' \<in> set (trace s')
                 \<longrightarrow> property_set ''ro.init.updatable_crashing'' ''1'' \<in> set (trace ?s1)"
    using Cons.IH [of ?s1 "Suc k"] by blast
  have cr: "has (flags ?s1) SVC_CRITICAL = has (flags s) SVC_CRITICAL"
    unfolding Reap_after_crash_policy(1) [OF rp step(3)] by (simp add: flag_simps)
  have r: "run (map (Pair OpReap) (e # es)) s = run (map (Pair OpReap) es) ?s1"
    by (simp add: apply_op_Reap_Returned [OF step(3)] del: apply_op.simps)
  have tr: "property_set ''ro.init.updatable_crashing'' ''1'' \<in> set (trace ?s1)
                 \<longrightarrow> property_set ''ro.init.updatable_crashing'' ''1'' \<in> set (trace s)"
    unfolding step(4) by auto
  have len: "k + length (e # es) = Suc k + length es" by simp
  show ?case
    unfolding r len using s' tr cr by (auto simp add: step(2) keep)
qed

text \<open>
  The same with the restarts in between, on the service \<open>svc\<close> flagged CRITICAL before
  the boot is complete: four rounds of Start and Reap leave a count of 4, and init aborts
  in the fifth Reap.
\<close>

lemma critical_service_five_crashes:
  "(\<exists>s. run [(OpStart, env0\<lparr>boot_completed := False\<rparr>), (OpReap, env0\<lparr>boot_completed := False\<rparr>),
             (OpStart, env0\<lparr>boot_completed := False\<rparr>), (OpReap, env0\<lparr>boot_completed := False\<rparr>),
             (OpStart, env0\<lparr>boot_completed := False\<rparr>), (OpReap, env0\<lparr>boot_completed := False\<rparr>),
             (OpStart, env0\<lparr>boot_completed := False\<rparr>), (OpReap, env0\<lparr>boot_completed := False\<rparr>)]
          (service0\<lparr>flags := SVC_CRITICAL\<rparr>) = Some s
        \<and> crash_count s = 4)
   \<and> run [(OpStart, env0\<lparr>boot_completed := False\<rparr>), (OpReap, env0\<lparr>boot_completed := False\<rparr>),
          (OpStart, env0\<lparr>boot_completed := False\<rparr>), (OpReap, env0\<lparr>boot_completed := False\<rparr>),
          (OpStart, env0\<lparr>boot_completed := False\<rparr>), (OpReap, env0\<lparr>boot_completed := False\<rparr>),
          (OpStart, env0\<lparr>boot_completed := False\<rparr>), (OpReap, env0\<lparr>boot_completed := False\<rparr>),
          (OpStart, env0\<lparr>boot_completed := False\<rparr>), (OpReap, env0\<lparr>boot_completed := False\<rparr>)]
       (service0\<lparr>flags := SVC_CRITICAL\<rparr>) = None"
  by (simp add: service0_def env0_def Start_def Reap_def crash_policy_def continue_def Let_def
      has_def emit_def NotifyStateChange_def KillProcessGroup_def UnSetExec_def
      SVC_DISABLED_def SVC_ONESHOT_def SVC_RUNNING_def SVC_RESTARTING_def
      SVC_CONSOLE_def SVC_CRITICAL_def SVC_RESET_def SVC_RC_DISABLED_def SVC_RESTART_def
      SVC_DISABLED_START_def SVC_EXEC_def SVC_TEMPORARY_def
      SIGKILL_def SIGTERM_def four_minutes_def)

text \<open>
  No operation but Reap writes \<open>crash_count_\<close> or \<open>time_crashed_\<close>.
\<close>

lemma NotifyStateChange_crash:
  "crash_count (NotifyStateChange e st s) = crash_count s"
  "time_crashed (NotifyStateChange e st s) = time_crashed s"
  by (simp_all add: NotifyStateChange_def emit_def Let_def)

lemma KillProcessGroup_crash:
  "crash_count (KillProcessGroup e sig s) = crash_count s"
  "time_crashed (KillProcessGroup e sig s) = time_crashed s"
  by (simp_all add: KillProcessGroup_def emit_def Let_def)

lemma StopOrReset_crash:
  "crash_count (StopOrReset e how s) = crash_count s"
  "time_crashed (StopOrReset e how s) = time_crashed s"
  by (simp_all add: StopOrReset_alt Let_def NotifyStateChange_crash KillProcessGroup_crash)

lemma Start_crash:
  "crash_count (snd (Start e s)) = crash_count s"
  "time_crashed (snd (Start e s)) = time_crashed s"
proof -
  define disabled where "disabled = has (flags s) (SVC_DISABLED OR SVC_RESET)"
  define s1 where "s1 = s\<lparr>flags := flags s AND NOT (SVC_DISABLED OR SVC_RESTARTING OR SVC_RESET
                                OR SVC_RESTART OR SVC_DISABLED_START)\<rparr>"
  define needs_console where "needs_console = has (flags s1) SVC_CONSOLE"
  define s2 where "s2 = (if needs_console \<and> console s1 = []
                       then s1\<lparr>console := default_console e\<rparr> else s1)"
  define s3 where "s3 = (if \<not> runtime_apex_ready e \<and> \<not> pre_apexd s2
                            then s2\<lparr>pre_apexd := True\<rparr> else s2)"
  define s4 where "s4 = emit fork_or_clone (s3\<lparr>post_data := is_post_data e\<rparr>)"
  define child where "child = fork_result e"
  define s5 where "s5 = (if oom_score_adjust s4 \<noteq> - 1000
                                 then emit (WriteOomScoreAdj child (oom_score_adjust s4)) s4
                                 else s4)"
  define s6 where "s6 = s5\<lparr>time_started := now e, pid := child,
                                   flags := flags s5 OR SVC_RUNNING,
                                   start_order := next_start_order s5,
                                   next_start_order := next_start_order s5 + 1,
                                   process_cgroup_empty := False\<rparr>"
  define s7 where "s7 = emit (createProcessGroup (uid s6) (pid s6) (use_memcg s6)) s6"
  have start: "Start e s =
     (if updatable s \<and> \<not> services_updated e
      then (Error NotUpdatedQueued, emit (DelayService (name s)) s)
      else if has (flags s1) SVC_RUNNING
           then (Success, if has (flags s1) SVC_ONESHOT \<and> disabled
                          then s1\<lparr>flags := flags s1 OR SVC_RESTART\<rparr> else s1)
           else if needs_console \<and> \<not> console_open_ok e
                then (Error NoConsole, s2\<lparr>flags := flags s2 OR SVC_DISABLED\<rparr>)
                else if \<not> stat_ok e
                then (Error CannotFind, s2\<lparr>flags := flags s2 OR SVC_DISABLED\<rparr>)
                else if seclabel s2 = [] \<and> computed_context e = None
                then (Error NoContext, s2)
                else if child = 0 then (InChild, s4)
                     else if child < 0 then (Error ForkFailed, s4\<lparr>pid := 0\<rparr>)
                     else (Success, NotifyStateChange e ''running'' s7))"
    unfolding Start_def s7_def s6_def s5_def child_def s4_def s3_def s2_def needs_console_def
      s1_def disabled_def Let_def
    by (rule refl)
  have c1: "crash_count s1 = crash_count s" "time_crashed s1 = time_crashed s"
    by (simp_all add: s1_def)
  have c2: "crash_count s2 = crash_count s" "time_crashed s2 = time_crashed s"
    by (simp_all add: s2_def c1)
  have c4: "crash_count s4 = crash_count s" "time_crashed s4 = time_crashed s"
    by (simp_all add: s4_def s3_def emit_def c2)
  have c5: "crash_count s5 = crash_count s" "time_crashed s5 = time_crashed s"
    by (simp_all add: s5_def emit_def c4)
  have c7: "crash_count s7 = crash_count s" "time_crashed s7 = time_crashed s"
    by (simp_all add: s7_def s6_def emit_def c5)
  show "crash_count (snd (Start e s)) = crash_count s"
    unfolding start by (simp add: c1 c2 c4 c7 emit_def NotifyStateChange_crash)
  show "time_crashed (snd (Start e s)) = time_crashed s"
    unfolding start by (simp add: c1 c2 c4 c7 emit_def NotifyStateChange_crash)
qed

lemma ExecStart_crash:
  "crash_count (snd (ExecStart e s)) = crash_count s"
  "time_crashed (snd (ExecStart e s)) = time_crashed s"
proof -
  let ?s0 = "s\<lparr>flags := flags s OR SVC_ONESHOT\<rparr>"
  obtain r s1 where st: "Start e ?s0 = (r, s1)" by (cases "Start e ?s0")
  from Start_crash [of e ?s0] have c: "crash_count s1 = crash_count s"
    "time_crashed s1 = time_crashed s"
    by (simp_all add: st)
  show "crash_count (snd (ExecStart e s)) = crash_count s"
    using c by (cases r) (simp_all add: ExecStart_def st)
  show "time_crashed (snd (ExecStart e s)) = time_crashed s"
    using c by (cases r) (simp_all add: ExecStart_def st)
qed

lemma Restart_crash:
  "crash_count (snd (Restart e s)) = crash_count s"
  "time_crashed (snd (Restart e s)) = time_crashed s"
proof -
  obtain r s1 where st: "Start e s = (r, s1)" by (cases "Start e s")
  from Start_crash [of e s] have c: "crash_count s1 = crash_count s"
    "time_crashed s1 = time_crashed s"
    by (simp_all add: st)
  show "crash_count (snd (Restart e s)) = crash_count s"
    using c by (cases r) (simp_all add: Restart_def st StopOrReset_crash)
  show "time_crashed (snd (Restart e s)) = time_crashed s"
    using c by (cases r) (simp_all add: Restart_def st StopOrReset_crash)
qed

lemma apply_op_crash:
  assumes "o1 \<noteq> OpReap" and "apply_op o1 e s = Some s'"
  shows "crash_count s' = crash_count s" and "time_crashed s' = time_crashed s"
proof -
  have c: "\<And>rs. continue rs = Some s' \<Longrightarrow> s' = snd rs"
    by (auto simp add: continue_def split: prod.splits result.splits)
  have "crash_count s' = crash_count s \<and> time_crashed s' = time_crashed s"
  proof (cases o1)
    case OpStart
    with assms(2) have "s' = snd (Start e s)" by (simp add: c)
    then show ?thesis by (simp add: Start_crash)
  next
    case OpExecStart
    with assms(2) have "s' = snd (ExecStart e s)" by (simp add: c)
    then show ?thesis by (simp add: ExecStart_crash)
  next
    case OpStartIfNotDisabled
    with assms(2) have "s' = snd (StartIfNotDisabled e s)" by (simp add: c)
    then show ?thesis by (simp add: StartIfNotDisabled_def Start_crash)
  next
    case OpEnable
    with assms(2) have "s' = snd (Enable e s)" by (simp add: c)
    then show ?thesis by (simp add: Enable_def Let_def Start_crash)
  next
    case OpReset
    with assms(2) have "s' = StopOrReset e SVC_RESET s" by (simp add: Reset_def)
    then show ?thesis by (simp add: StopOrReset_crash)
  next
    case OpResetIfPostData
    with assms(2) have "s' = ResetIfPostData e s" by simp
    then show ?thesis by (simp add: ResetIfPostData_def StopOrReset_crash)
  next
    case OpStartIfPostData
    with assms(2) have "s' = snd (StartIfPostData e s)" by (simp add: c)
    then show ?thesis by (simp add: StartIfPostData_def Start_crash)
  next
    case OpStop
    with assms(2) have "s' = StopOrReset e SVC_DISABLED s" by (simp add: Stop_def)
    then show ?thesis by (simp add: StopOrReset_crash)
  next
    case OpTerminate
    with assms(2) have "s' = Terminate e s" by simp
    then show ?thesis
      by (simp add: Terminate_def Let_def NotifyStateChange_crash KillProcessGroup_crash)
  next
    case OpTimeout
    with assms(2) have "s' = Timeout e s" by simp
    then show ?thesis
      by (simp add: Timeout_def NotifyStateChange_crash KillProcessGroup_crash)
  next
    case OpRestart
    with assms(2) have "s' = snd (Restart e s)" by (simp add: c)
    then show ?thesis by (simp add: Restart_crash)
  next
    case (OpStopOrReset how)
    with assms(2) have "s' = StopOrReset e how s" by simp
    then show ?thesis by (simp add: StopOrReset_crash)
  next
    case OpReap
    with assms(1) show ?thesis by simp
  qed
  then show "crash_count s' = crash_count s" and "time_crashed s' = time_crashed s"
    by simp_all
qed

text \<open>
  A Reap raises a count that is not negative by one at most, and keeps it from being
  negative.
\<close>

lemma Reap_count_bound:
  assumes "0 \<le> sint (crash_count s)" and "sint (crash_count s) \<le> n" and "n < 2147483647"
  shows "0 \<le> sint (crash_count (snd (Reap e s)))"
    and "sint (crash_count (snd (Reap e s))) \<le> n + 1"
proof -
  have "crash_count (snd (Reap e s)) = crash_count s + 1
      \<or> crash_count (snd (Reap e s)) = 1
      \<or> crash_count (snd (Reap e s)) = crash_count s"
  proof (cases "runs_crash_policy e s")
    case True
    from Reap_crash_step [OF True] show ?thesis by (auto split: if_splits)
  next
    case False
    from Reap_without_crash_policy(1) [OF False] show ?thesis by simp
  qed
  moreover have "sint (crash_count s + 1) = sint (crash_count s) + 1"
    using assms by (intro sint_incr) simp
  moreover have "sint (1 :: 32 word) = 1" by simp
  ultimately have "0 \<le> sint (crash_count (snd (Reap e s)))
      \<and> sint (crash_count (snd (Reap e s))) \<le> n + 1"
    using assms by auto
  then show "0 \<le> sint (crash_count (snd (Reap e s)))"
    and "sint (crash_count (snd (Reap e s))) \<le> n + 1"
    by simp_all
qed

text \<open>
  Through a history the count goes up by the number of its Reaps at most.
\<close>

lemma run_count_bound:
  "run ops s = Some s' \<Longrightarrow> 0 \<le> sint (crash_count s) \<Longrightarrow>
   sint (crash_count s) + int (length (filter (\<lambda>x. fst x = OpReap) ops)) < 2147483647 \<Longrightarrow>
     0 \<le> sint (crash_count s')
     \<and> sint (crash_count s')
         \<le> sint (crash_count s) + int (length (filter (\<lambda>x. fst x = OpReap) ops))"
proof (induction ops arbitrary: s)
  case Nil
  then show ?case by simp
next
  case (Cons a ops)
  obtain o1 e where a: "a = (o1, e)" by (cases a)
  from Cons.prems(1) obtain s1 where s1: "apply_op o1 e s = Some s1" "run ops s1 = Some s'"
    by (auto simp add: a split: option.splits)
  show ?case
  proof (cases "o1 = OpReap")
    case True
    from s1(1) True have e1: "s1 = snd (Reap e s)"
      by (auto split: prod.splits outcome.splits)
    have lt: "sint (crash_count s) < 2147483647" using Cons.prems(3) by simp
    from Reap_count_bound [OF Cons.prems(2) order_refl lt, of e]
    have b: "0 \<le> sint (crash_count s1)" "sint (crash_count s1) \<le> sint (crash_count s) + 1"
      by (simp_all add: e1)
    have "sint (crash_count s1) + int (length (filter (\<lambda>x. fst x = OpReap) ops)) < 2147483647"
      using Cons.prems(3) b(2) by (simp add: a True)
    from Cons.IH [OF s1(2) b(1) this] b(2) show ?thesis
      by (simp add: a True)
  next
    case False
    from apply_op_crash(1) [OF False s1(1)] have e1: "crash_count s1 = crash_count s" .
    have "0 \<le> sint (crash_count s1)" using Cons.prems(2) by (simp add: e1)
    moreover have
      "sint (crash_count s1) + int (length (filter (\<lambda>x. fst x = OpReap) ops)) < 2147483647"
      using Cons.prems(3) by (simp add: a False e1)
    ultimately show ?thesis
      using Cons.IH [OF s1(2)] by (simp add: a False e1)
  qed
qed

text \<open>
  A Reap of a service whose count is 3 or less returns, and does not publish
  \<open>ro.init.updatable_crashing\<close>, whether it runs the crash accounting or not.
\<close>

lemma Reap_low_count:
  assumes "sint (crash_count s) \<le> 3"
  shows "fst (Reap e s) = Returned"
    and "property_set ''ro.init.updatable_crashing'' ''1''
           \<notin> set (drop (length (trace s)) (trace (snd (Reap e s))))"
proof -
  have n4: "\<not> 4 < sint (crash_count s + 1)"
    using assms by (simp add: incremented_count_above_4)
  have "fst (Reap e s) = Returned
      \<and> property_set ''ro.init.updatable_crashing'' ''1''
           \<notin> set (drop (length (trace s)) (trace (snd (Reap e s))))"
  proof (cases "runs_crash_policy e s")
    case True
    from Reap_crash_step [OF True] n4
    have "fst (Reap e s) = Returned
        \<and> trace (snd (Reap e s)) =
            trace s
            @ (if process_cgroup_empty s then []
               else [killProcessGroup (uid s) (pid s) SIGKILL])
            @ map DescriptorClean (descriptors s)
            @ map reap_callback [0 ..< reap_callbacks s]
            @ [onrestart_ExecuteAllCommands,
               property_set (''init.svc.'' @ name s) ''restarting'']"
      by (simp split: if_splits)
    then show ?thesis by auto
  next
    case False
    obtain s4 s6 where
      t4: "trace s4 = trace s
           @ (if (\<not> has (flags s) SVC_ONESHOT \<or> has (flags s) SVC_RESTART)
                 \<and> \<not> process_cgroup_empty s
              then [killProcessGroup (uid s) (pid s) SIGKILL] else [])
           @ map DescriptorClean (descriptors s)
           @ map reap_callback [0 ..< reap_callbacks s]"
      and f6: "flags s6 =
          (if has (flags s) SVC_ONESHOT \<and> \<not> has (flags s) SVC_RESTART \<and> \<not> has (flags s) SVC_RESET
           then (flags s AND NOT SVC_EXEC) AND NOT SVC_RUNNING OR SVC_DISABLED
           else (flags s AND NOT SVC_EXEC) AND NOT SVC_RUNNING)"
      and m6: "name s6 = name s" "pre_apexd s6 = pre_apexd s"
      and tr6: "trace s6 = trace s4"
      and reap: "Reap e s =
          (if has (flags s) SVC_TEMPORARY then (Returned, s4)
           else if has (flags s6) (SVC_DISABLED OR SVC_RESET)
           then (Returned, NotifyStateChange e ''stopped'' s6)
           else
             (case crash_policy e s6 of
                (Aborted, s7) \<Rightarrow> (Aborted, s7)
              | (Returned, s7) \<Rightarrow>
                  (Returned,
                   NotifyStateChange e ''restarting''
                     (emit onrestart_ExecuteAllCommands
                        (s7\<lparr>flags := flags s7 AND NOT SVC_RESTART OR SVC_RESTARTING\<rparr>)))))"
      by (rule Reap_cases [of s e]) blast
    have no4: "property_set ''ro.init.updatable_crashing'' ''1''
        \<notin> set (drop (length (trace s)) (trace s4))"
      unfolding t4 by auto
    consider (temp) "has (flags s) SVC_TEMPORARY"
      | (stopped) "\<not> has (flags s) SVC_TEMPORARY" "has (flags s6) (SVC_DISABLED OR SVC_RESET)"
      | (restart) "\<not> has (flags s) SVC_TEMPORARY" "\<not> has (flags s6) (SVC_DISABLED OR SVC_RESET)"
      by blast
    then show ?thesis
    proof cases
      case temp
      then show ?thesis using no4 by (simp add: reap)
    next
      case stopped
      have "trace (NotifyStateChange e ''stopped'' s6)
          = trace s4 @ (if has (flags s6) SVC_TEMPORARY then []
                        else [property_set (''init.svc.'' @ name s) ''stopped''])"
        by (simp add: trace_NotifyStateChange tr6 m6)
      then show ?thesis using stopped no4 unfolding t4 by (auto simp add: reap)
    next
      case restart
      have one: "\<not> (has (flags s) SVC_ONESHOT \<and> \<not> has (flags s) SVC_RESTART \<and> \<not> has (flags s) SVC_RESET)"
        using restart(2) unfolding f6 by (auto simp add: flag_simps split: if_splits)
      then have g6: "flags s6 = (flags s AND NOT SVC_EXEC) AND NOT SVC_RUNNING"
        unfolding f6 by auto
      have dr: "\<not> has (flags s) SVC_DISABLED" "\<not> has (flags s) SVC_RESET"
        using restart(2) unfolding g6 by (simp_all add: flag_simps)
      have h6: "has (flags s6) SVC_CRITICAL = has (flags s) SVC_CRITICAL"
        "has (flags s6) SVC_RESTART = has (flags s) SVC_RESTART"
        by (simp_all add: g6 flag_simps)
      have no: "\<not> ((has (flags s6) SVC_CRITICAL \<or> (\<not> pre_apexd s6 \<and> is_apex_updatable e))
           \<and> \<not> has (flags s6) SVC_RESTART)"
        using False restart(1) one dr unfolding runs_crash_policy_def h6 m6 by blast
      have cp: "crash_policy e s6 = (Returned, s6)"
        unfolding crash_policy_eq by (rule if_not_P [OF no])
      have "trace (snd (Reap e s))
          = trace s4 @ onrestart_ExecuteAllCommands
              # (if has (flags s6 AND NOT SVC_RESTART OR SVC_RESTARTING) SVC_TEMPORARY then []
                 else [property_set (''init.svc.'' @ name s) ''restarting''])"
        using restart by (simp add: reap cp trace_NotifyStateChange emit_def tr6 m6)
      moreover have "fst (Reap e s) = Returned"
        using restart by (simp add: reap cp)
      ultimately show ?thesis unfolding t4 by auto
    qed
  qed
  then show "fst (Reap e s) = Returned"
    and "property_set ''ro.init.updatable_crashing'' ''1''
           \<notin> set (drop (length (trace s)) (trace (snd (Reap e s))))"
    by simp_all
qed

lemma critical_service_one_round:
  "\<exists>s1. run [(OpStart, env0\<lparr>boot_completed := False\<rparr>),
              (OpReap, env0\<lparr>boot_completed := False\<rparr>)]
          (service0\<lparr>flags := SVC_CRITICAL\<rparr>) = Some s1"
  by (simp add: service0_def env0_def Start_def Reap_def crash_policy_def continue_def Let_def
      has_def emit_def NotifyStateChange_def KillProcessGroup_def UnSetExec_def
      SVC_DISABLED_def SVC_ONESHOT_def SVC_RUNNING_def SVC_RESTARTING_def
      SVC_CONSOLE_def SVC_CRITICAL_def SVC_RESET_def SVC_RC_DISABLED_def SVC_RESTART_def
      SVC_DISABLED_START_def SVC_EXEC_def SVC_TEMPORARY_def
      SIGKILL_def SIGTERM_def four_minutes_def)

text \<open>
  The window is four minutes of the boot clock, 240000000000 ns, and the comparison is
  strict: a service last counted at 1000 ns that exits at 240000000999 ns, after the boot
  is complete, is inside the window and its count goes from 2 to 3; one nanosecond later it
  is outside, the window starts again at that time and the count is 1.
\<close>

lemma crash_policy_window_edge:
  "crash_policy (env0\<lparr>boot_completed := True, now := 240000000999\<rparr>)
       (service0\<lparr>flags := SVC_CRITICAL, crash_count := 2, time_crashed := 1000\<rparr>)
     = (Returned, service0\<lparr>flags := SVC_CRITICAL, crash_count := 3, time_crashed := 1000\<rparr>)
   \<and> crash_policy (env0\<lparr>boot_completed := True, now := 240000001000\<rparr>)
       (service0\<lparr>flags := SVC_CRITICAL, crash_count := 2, time_crashed := 1000\<rparr>)
     = (Returned,
        service0\<lparr>flags := SVC_CRITICAL, crash_count := 1, time_crashed := 240000001000\<rparr>)"
  by (simp add: crash_policy_def Let_def four_minutes_def service0_def env0_def flag_simps)

text \<open>
  C5. On a Reap that runs the crash accounting: inside the window of four minutes
  (240000000000 ns of the boot clock) after \<open>time_crashed\<close>, or before the boot is complete,
  \<open>crash_count\<close> is incremented: the \<open>int\<close> goes up by one, and from \<open>INT_MAX\<close> it wraps to
  \<open>INT_MIN\<close>. When the incremented count is above 4, which is when the old count is above 3
  and not \<open>INT_MAX\<close>, a CRITICAL service makes init abort, and an updatable one has
  \<open>ro.init.updatable_crashing\<close> set to 1 and goes on to restart; when it is not, neither
  happens. Outside the window, with the boot complete, the window starts again:
  \<open>time_crashed\<close> is now and \<open>crash_count\<close> is 1. From a count of 0, four crashes in the
  window pass without either, and the fifth one triggers. The first four crashes never
  trigger, whatever the supervisor does to the service in between and whenever they
  happen: after any history with at most three Reaps, from a count of 0, the next Reap
  returns and publishes nothing. No other operation changes \<open>crash_count\<close> or
  \<open>time_crashed\<close>.
\<close>

theorem Reap_crash_policy:
  "(runs_crash_policy e s \<longrightarrow>
     (if sint (now e) < sint (time_crashed s + 240000000000) \<or> \<not> boot_completed e
      then crash_count (snd (Reap e s)) = crash_count s + 1
           \<and> (sint (crash_count s) < 2147483647
                \<longrightarrow> sint (crash_count (snd (Reap e s))) = sint (crash_count s) + 1)
           \<and> (sint (crash_count s) = 2147483647
                \<longrightarrow> sint (crash_count (snd (Reap e s))) = - 2147483648)
           \<and> (4 < sint (crash_count s + 1))
               = (3 < sint (crash_count s) \<and> sint (crash_count s) \<noteq> 2147483647)
           \<and> time_crashed (snd (Reap e s)) = time_crashed s
           \<and> (if 4 < sint (crash_count s + 1)
               then (if has (flags s) SVC_CRITICAL
                     then fst (Reap e s) = Aborted
                          \<and> last (trace (snd (Reap e s)))
                              = LOG_FATAL (''critical process '' @ name s)
                     else fst (Reap e s) = Returned
                          \<and> property_set ''ro.init.updatable_crashing'' ''1''
                               \<in> set (drop (length (trace s)) (trace (snd (Reap e s)))))
               else fst (Reap e s) = Returned
                    \<and> property_set ''ro.init.updatable_crashing'' ''1''
                         \<notin> set (drop (length (trace s)) (trace (snd (Reap e s)))))
      else fst (Reap e s) = Returned
           \<and> time_crashed (snd (Reap e s)) = now e
           \<and> crash_count (snd (Reap e s)) = 1
           \<and> property_set ''ro.init.updatable_crashing'' ''1''
                \<notin> set (drop (length (trace s)) (trace (snd (Reap e s))))))
   \<and> (crash_count s = 0 \<and> length es = 4
       \<and> (\<forall>e'\<in>set (es @ [e5]). runs_crash_policy e' s
              \<and> (sint (now e') < sint (time_crashed s + 240000000000) \<or> \<not> boot_completed e'))
       \<longrightarrow> (\<exists>s4. run (map (Pair OpReap) es) s = Some s4
               \<and> crash_count s4 = 4
               \<and> (property_set ''ro.init.updatable_crashing'' ''1'' \<in> set (trace s4)
                    \<longrightarrow> property_set ''ro.init.updatable_crashing'' ''1'' \<in> set (trace s))
               \<and> crash_count (snd (Reap e5 s4)) = 5
               \<and> (if has (flags s) SVC_CRITICAL
                   then fst (Reap e5 s4) = Aborted \<and> apply_op OpReap e5 s4 = None
                   else fst (Reap e5 s4) = Returned
                        \<and> property_set ''ro.init.updatable_crashing'' ''1''
                             \<in> set (trace (snd (Reap e5 s4))))))
   \<and> (crash_count s = 0 \<and> run ops s = Some s1
       \<and> length (filter (\<lambda>x. fst x = OpReap) ops) \<le> 3
       \<longrightarrow> fst (Reap e1 s1) = Returned
           \<and> property_set ''ro.init.updatable_crashing'' ''1''
                \<notin> set (drop (length (trace s1)) (trace (snd (Reap e1 s1))))
           \<and> sint (crash_count (snd (Reap e1 s1))) \<le> 4)
   \<and> (o1 \<noteq> OpReap \<and> apply_op o1 e s = Some s2
       \<longrightarrow> crash_count s2 = crash_count s \<and> time_crashed s2 = time_crashed s)"
proof (intro conjI impI)
  assume rp: "runs_crash_policy e s"
  have step: "if sint (now e) < sint (time_crashed s + 240000000000) \<or> \<not> boot_completed e
      then crash_count (snd (Reap e s)) = crash_count s + 1
           \<and> time_crashed (snd (Reap e s)) = time_crashed s
           \<and> (if 4 < sint (crash_count s + 1)
               then (if has (flags s) SVC_CRITICAL
                     then fst (Reap e s) = Aborted
                          \<and> last (trace (snd (Reap e s)))
                              = LOG_FATAL (''critical process '' @ name s)
                     else fst (Reap e s) = Returned
                          \<and> property_set ''ro.init.updatable_crashing'' ''1''
                               \<in> set (drop (length (trace s)) (trace (snd (Reap e s)))))
               else fst (Reap e s) = Returned
                    \<and> property_set ''ro.init.updatable_crashing'' ''1''
                         \<notin> set (drop (length (trace s)) (trace (snd (Reap e s)))))
      else fst (Reap e s) = Returned
           \<and> time_crashed (snd (Reap e s)) = now e
           \<and> crash_count (snd (Reap e s)) = 1
           \<and> property_set ''ro.init.updatable_crashing'' ''1''
                \<notin> set (drop (length (trace s)) (trace (snd (Reap e s))))"
    using Reap_crash_step [OF rp] unfolding four_minutes_ns by (auto split: if_splits)
  show "if sint (now e) < sint (time_crashed s + 240000000000) \<or> \<not> boot_completed e
      then crash_count (snd (Reap e s)) = crash_count s + 1
           \<and> (sint (crash_count s) < 2147483647
                \<longrightarrow> sint (crash_count (snd (Reap e s))) = sint (crash_count s) + 1)
           \<and> (sint (crash_count s) = 2147483647
                \<longrightarrow> sint (crash_count (snd (Reap e s))) = - 2147483648)
           \<and> (4 < sint (crash_count s + 1))
               = (3 < sint (crash_count s) \<and> sint (crash_count s) \<noteq> 2147483647)
           \<and> time_crashed (snd (Reap e s)) = time_crashed s
           \<and> (if 4 < sint (crash_count s + 1)
               then (if has (flags s) SVC_CRITICAL
                     then fst (Reap e s) = Aborted
                          \<and> last (trace (snd (Reap e s)))
                              = LOG_FATAL (''critical process '' @ name s)
                     else fst (Reap e s) = Returned
                          \<and> property_set ''ro.init.updatable_crashing'' ''1''
                               \<in> set (drop (length (trace s)) (trace (snd (Reap e s)))))
               else fst (Reap e s) = Returned
                    \<and> property_set ''ro.init.updatable_crashing'' ''1''
                         \<notin> set (drop (length (trace s)) (trace (snd (Reap e s)))))
      else fst (Reap e s) = Returned
           \<and> time_crashed (snd (Reap e s)) = now e
           \<and> crash_count (snd (Reap e s)) = 1
           \<and> property_set ''ro.init.updatable_crashing'' ''1''
                \<notin> set (drop (length (trace s)) (trace (snd (Reap e s))))"
  proof (cases "sint (now e) < sint (time_crashed s + 240000000000) \<or> \<not> boot_completed e")
    case True
    note all = step [unfolded if_P [OF True]]
    note c = all [THEN conjunct1] and rest = all [THEN conjunct2]
    have a: "sint (crash_count s) < 2147483647
                \<longrightarrow> sint (crash_count (snd (Reap e s))) = sint (crash_count s) + 1"
      unfolding c by (rule impI) (rule sint_incr)
    have b: "sint (crash_count s) = 2147483647
                \<longrightarrow> sint (crash_count (snd (Reap e s))) = - 2147483648"
      unfolding c by (rule impI) (rule sint_incr_INT_MAX)
    show ?thesis
      unfolding if_P [OF True]
      by (rule conjI [OF c conjI [OF a conjI [OF b
            conjI [OF incremented_count_above_4 [of "crash_count s"] rest]]]])
  next
    case False
    show ?thesis
      unfolding if_not_P [OF False] by (rule step [unfolded if_not_P [OF False]])
  qed
next
  assume a: "crash_count s = 0 \<and> length es = 4
       \<and> (\<forall>e'\<in>set (es @ [e5]). runs_crash_policy e' s
              \<and> (sint (now e') < sint (time_crashed s + 240000000000) \<or> \<not> boot_completed e'))"
  then have "\<forall>e\<in>set es. runs_crash_policy e s
              \<and> (sint (now e) < sint (time_crashed s + four_minutes) \<or> \<not> boot_completed e)"
    and "crash_count s = of_nat 0" and "0 + length es \<le> 4"
    by (simp_all add: four_minutes_ns)
  from crashes_allowed [OF this] obtain s4 where s4:
    "run (map (Pair OpReap) es) s = Some s4"
    "crash_count s4 = of_nat (0 + length es)"
    "time_crashed s4 = time_crashed s"
    "\<forall>e'. runs_crash_policy e' s4 = runs_crash_policy e' s"
    "has (flags s4) SVC_CRITICAL = has (flags s) SVC_CRITICAL"
    "property_set ''ro.init.updatable_crashing'' ''1'' \<in> set (trace s4)
                 \<longrightarrow> property_set ''ro.init.updatable_crashing'' ''1'' \<in> set (trace s)"
    by blast
  have c4: "crash_count s4 = 4" using a s4(2) by simp
  have rp5: "runs_crash_policy e5 s4" using a s4(4) by simp
  have w5: "sint (now e5) < sint (time_crashed s4 + four_minutes) \<or> \<not> boot_completed e5"
    using a s4(3) by (simp add: four_minutes_ns)
  note crit = s4(5)
  from Reap_crash_step [OF rp5] w5 c4
  have fifth: "crash_count (snd (Reap e5 s4)) = 5
      \<and> (if has (flags s4) SVC_CRITICAL
                   then fst (Reap e5 s4) = Aborted
                   else fst (Reap e5 s4) = Returned
                        \<and> property_set ''ro.init.updatable_crashing'' ''1''
                             \<in> set (trace (snd (Reap e5 s4))))"
    by (auto split: if_splits)
  have ab: "fst (Reap e5 s4) = Aborted \<Longrightarrow> apply_op OpReap e5 s4 = None"
    by (cases "Reap e5 s4") (simp split: outcome.splits)
  show "\<exists>s4. run (map (Pair OpReap) es) s = Some s4
               \<and> crash_count s4 = 4
               \<and> (property_set ''ro.init.updatable_crashing'' ''1'' \<in> set (trace s4)
                    \<longrightarrow> property_set ''ro.init.updatable_crashing'' ''1'' \<in> set (trace s))
               \<and> crash_count (snd (Reap e5 s4)) = 5
               \<and> (if has (flags s) SVC_CRITICAL
                   then fst (Reap e5 s4) = Aborted \<and> apply_op OpReap e5 s4 = None
                   else fst (Reap e5 s4) = Returned
                        \<and> property_set ''ro.init.updatable_crashing'' ''1''
                             \<in> set (trace (snd (Reap e5 s4))))"
    using s4(1) c4 s4(6) fifth ab crit by (intro exI [of _ s4]) auto
next
  assume a: "crash_count s = 0 \<and> run ops s = Some s1
       \<and> length (filter (\<lambda>x. fst x = OpReap) ops) \<le> 3"
  then have r: "run ops s = Some s1" and z: "0 \<le> sint (crash_count s)"
    and l: "sint (crash_count s) + int (length (filter (\<lambda>x. fst x = OpReap) ops)) < 2147483647"
    by simp_all
  from run_count_bound [OF r z l] a
  have b: "0 \<le> sint (crash_count s1)" "sint (crash_count s1) \<le> 3"
    by simp_all
  have lt: "(3 :: int) < 2147483647" by simp
  show "fst (Reap e1 s1) = Returned"
    by (rule Reap_low_count(1) [OF b(2)])
  show "property_set ''ro.init.updatable_crashing'' ''1''
          \<notin> set (drop (length (trace s1)) (trace (snd (Reap e1 s1))))"
    by (rule Reap_low_count(2) [OF b(2)])
  show "sint (crash_count (snd (Reap e1 s1))) \<le> 4"
    using Reap_count_bound(2) [OF b lt, of e1] by simp
next
  assume "o1 \<noteq> OpReap \<and> apply_op o1 e s = Some s2"
  then have n: "o1 \<noteq> OpReap" and r: "apply_op o1 e s = Some s2" by simp_all
  show "crash_count s2 = crash_count s" by (rule apply_op_crash(1) [OF n r])
  show "time_crashed s2 = time_crashed s" by (rule apply_op_crash(2) [OF n r])
qed

text \<open>
  On the service \<open>svc\<close>, CRITICAL and running: before the boot is complete, a count of 4
  makes init abort, and four exits from a count of 0 lead there. After the boot is
  complete, an exit 239999999999 ns after \<open>time_crashed\<close> is counted (2 becomes 3), and one
  240000000000 ns after it starts the window again. An updatable service whose count is
  \<open>INT_MAX\<close> has it wrap to \<open>INT_MIN\<close>, and nothing is published. After one round of Start
  and Reap the next Reap returns; and Stop leaves the count alone.
\<close>

theorem Reap_crash_policy_witness:
  "runs_crash_policy (env0\<lparr>boot_completed := False\<rparr>)
     (service0\<lparr>pid := 42, flags := SVC_CRITICAL OR SVC_RUNNING, crash_count := 4\<rparr>)
   \<and> fst (Reap (env0\<lparr>boot_completed := False\<rparr>)
            (service0\<lparr>pid := 42, flags := SVC_CRITICAL OR SVC_RUNNING, crash_count := 4\<rparr>))
       = Aborted
   \<and> (\<exists>s4. run (map (Pair OpReap)
                  [env0\<lparr>boot_completed := False\<rparr>, env0\<lparr>boot_completed := False\<rparr>,
                   env0\<lparr>boot_completed := False\<rparr>, env0\<lparr>boot_completed := False\<rparr>])
               (service0\<lparr>pid := 42, flags := SVC_CRITICAL OR SVC_RUNNING\<rparr>) = Some s4
            \<and> crash_count s4 = 4
            \<and> fst (Reap (env0\<lparr>boot_completed := False\<rparr>) s4) = Aborted)
   \<and> crash_count (snd (Reap (env0\<lparr>boot_completed := True, now := 240000000999\<rparr>)
        (service0\<lparr>pid := 42, flags := SVC_CRITICAL OR SVC_RUNNING,
                  crash_count := 2, time_crashed := 1000\<rparr>))) = 3
   \<and> time_crashed (snd (Reap (env0\<lparr>boot_completed := True, now := 240000000999\<rparr>)
        (service0\<lparr>pid := 42, flags := SVC_CRITICAL OR SVC_RUNNING,
                  crash_count := 2, time_crashed := 1000\<rparr>))) = 1000
   \<and> crash_count (snd (Reap (env0\<lparr>boot_completed := True, now := 240000001000\<rparr>)
        (service0\<lparr>pid := 42, flags := SVC_CRITICAL OR SVC_RUNNING,
                  crash_count := 2, time_crashed := 1000\<rparr>))) = 1
   \<and> time_crashed (snd (Reap (env0\<lparr>boot_completed := True, now := 240000001000\<rparr>)
        (service0\<lparr>pid := 42, flags := SVC_CRITICAL OR SVC_RUNNING,
                  crash_count := 2, time_crashed := 1000\<rparr>))) = 240000001000
   \<and> fst (Reap (env0\<lparr>boot_completed := False, is_apex_updatable := True\<rparr>)
        (service0\<lparr>pid := 42, flags := SVC_RUNNING, crash_count := 2147483647\<rparr>)) = Returned
   \<and> sint (crash_count (snd (Reap (env0\<lparr>boot_completed := False, is_apex_updatable := True\<rparr>)
        (service0\<lparr>pid := 42, flags := SVC_RUNNING, crash_count := 2147483647\<rparr>))))
       = - 2147483648
   \<and> property_set ''ro.init.updatable_crashing'' ''1''
       \<notin> set (trace (snd (Reap (env0\<lparr>boot_completed := False, is_apex_updatable := True\<rparr>)
                (service0\<lparr>pid := 42, flags := SVC_RUNNING, crash_count := 2147483647\<rparr>))))
   \<and> (\<exists>s1. run [(OpStart, env0\<lparr>boot_completed := False\<rparr>),
                 (OpReap, env0\<lparr>boot_completed := False\<rparr>)]
             (service0\<lparr>flags := SVC_CRITICAL\<rparr>) = Some s1
          \<and> fst (Reap (env0\<lparr>boot_completed := False\<rparr>) s1) = Returned)
   \<and> apply_op OpStop env0 (service0\<lparr>crash_count := 3\<rparr>)
       = Some (Stop env0 (service0\<lparr>crash_count := 3\<rparr>))
   \<and> crash_count (Stop env0 (service0\<lparr>crash_count := 3\<rparr>)) = 3"
proof -
  let ?e = "env0\<lparr>boot_completed := False\<rparr>"
  let ?s = "service0\<lparr>pid := 42, flags := SVC_CRITICAL OR SVC_RUNNING\<rparr>"
  let ?ei = "env0\<lparr>boot_completed := True, now := 240000000999\<rparr>"
  let ?eo = "env0\<lparr>boot_completed := True, now := 240000001000\<rparr>"
  let ?sw = "service0\<lparr>pid := 42, flags := SVC_CRITICAL OR SVC_RUNNING,
                  crash_count := 2, time_crashed := 1000\<rparr>"
  let ?eu = "env0\<lparr>boot_completed := False, is_apex_updatable := True\<rparr>"
  let ?su = "service0\<lparr>pid := 42, flags := SVC_RUNNING, crash_count := 2147483647\<rparr>"
  have c: "has (flags ?s) SVC_CRITICAL" by (simp add: flag_simps)
  have rp: "runs_crash_policy ?e ?s" "runs_crash_policy ?e (?s\<lparr>crash_count := 4\<rparr>)"
    by (simp_all add: runs_crash_policy_def flag_simps)
  have z: "crash_count ?s = 0" by (simp add: service0_def)
  have first: "fst (Reap ?e (?s\<lparr>crash_count := 4\<rparr>)) = Aborted"
    using rp(2) c Reap_crash_policy [of ?e "?s\<lparr>crash_count := 4\<rparr>", THEN conjunct1]
    by simp
  have second: "\<exists>s4. run (map (Pair OpReap) [?e, ?e, ?e, ?e]) ?s = Some s4
            \<and> crash_count s4 = 4 \<and> fst (Reap ?e s4) = Aborted"
    using rp(1) c z
      Reap_crash_policy [of ?e ?s "[?e, ?e, ?e, ?e]" ?e, THEN conjunct2, THEN conjunct1]
    by (simp del: run.simps) blast
  have rw: "runs_crash_policy ?ei ?sw" "runs_crash_policy ?eo ?sw"
    by (simp_all add: runs_crash_policy_def flag_simps)
  have inside: "crash_count (snd (Reap ?ei ?sw)) = 3 \<and> time_crashed (snd (Reap ?ei ?sw)) = 1000"
    using rw(1) Reap_crash_policy [of ?ei ?sw, THEN conjunct1]
    by (simp add: env0_def service0_def)
  have outside: "crash_count (snd (Reap ?eo ?sw)) = 1
      \<and> time_crashed (snd (Reap ?eo ?sw)) = 240000001000"
    using rw(2) Reap_crash_policy [of ?eo ?sw, THEN conjunct1]
    by (simp add: env0_def service0_def)
  have ru: "runs_crash_policy ?eu ?su" "\<not> has (flags ?su) SVC_CRITICAL" "trace ?su = []"
    by (simp_all add: runs_crash_policy_def flag_simps service0_def env0_def)
  have wrap: "fst (Reap ?eu ?su) = Returned
      \<and> sint (crash_count (snd (Reap ?eu ?su))) = - 2147483648
      \<and> property_set ''ro.init.updatable_crashing'' ''1'' \<notin> set (trace (snd (Reap ?eu ?su)))"
    using ru Reap_crash_policy [of ?eu ?su, THEN conjunct1]
    by (simp add: service0_def)
  let ?sc = "service0\<lparr>flags := SVC_CRITICAL\<rparr>"
  let ?ops = "[(OpStart, ?e), (OpReap, ?e)]"
  from critical_service_one_round obtain s1 where s1: "run ?ops ?sc = Some s1" by blast
  have zc: "crash_count ?sc = 0" by (simp add: service0_def)
  have "fst (Reap ?e s1) = Returned"
    using s1 zc
      Reap_crash_policy [of _ ?sc _ _ ?ops s1 ?e,
        THEN conjunct2, THEN conjunct2, THEN conjunct1]
    by simp
  with s1 have third: "\<exists>s1. run ?ops ?sc = Some s1 \<and> fst (Reap ?e s1) = Returned"
    by blast
  let ?s3 = "service0\<lparr>crash_count := 3\<rparr>"
  have ap: "apply_op OpStop env0 ?s3 = Some (Stop env0 ?s3)" by simp
  have fourth: "crash_count (Stop env0 ?s3) = 3"
    using ap
      Reap_crash_policy [of env0 ?s3 _ _ _ _ _ OpStop "Stop env0 ?s3",
        THEN conjunct2, THEN conjunct2, THEN conjunct2]
    by simp
  show ?thesis
    using rp(2) first second inside outside wrap third ap fourth by (simp only: simp_thms)
qed

lemma Reap_not_temporary_fields:
  assumes "\<not> has (flags s) SVC_TEMPORARY"
  shows "pid (snd (Reap e s)) = 0"
    and "start_order (snd (Reap e s)) = 0"
    and "\<not> has (flags (snd (Reap e s))) SVC_RUNNING"
proof -
  obtain s4 s6 where
    s6: "pid s6 = 0" "start_order s6 = 0"
    and f6: "flags s6 =
          (if has (flags s) SVC_ONESHOT \<and> \<not> has (flags s) SVC_RESTART \<and> \<not> has (flags s) SVC_RESET
           then (flags s AND NOT SVC_EXEC) AND NOT SVC_RUNNING OR SVC_DISABLED
           else (flags s AND NOT SVC_EXEC) AND NOT SVC_RUNNING)"
    and reap: "Reap e s =
          (if has (flags s) SVC_TEMPORARY then (Returned, s4)
           else if has (flags s6) (SVC_DISABLED OR SVC_RESET)
           then (Returned, NotifyStateChange e ''stopped'' s6)
           else
             (case crash_policy e s6 of
                (Aborted, s7) \<Rightarrow> (Aborted, s7)
              | (Returned, s7) \<Rightarrow>
                  (Returned,
                   NotifyStateChange e ''restarting''
                     (emit onrestart_ExecuteAllCommands
                        (s7\<lparr>flags := flags s7 AND NOT SVC_RESTART OR SVC_RESTARTING\<rparr>)))))"
    by (rule Reap_cases [of s e]) blast
  have R: "\<not> has (flags s6) SVC_RUNNING"
    "\<not> has (flags s6 AND NOT SVC_RESTART OR SVC_RESTARTING) SVC_RUNNING"
    unfolding f6 by (simp_all add: flag_simps)
  obtain oc s7 where cp: "crash_policy e s6 = (oc, s7)" by (cases "crash_policy e s6")
  have s7: "pid s7 = 0" "start_order s7 = 0" "flags s7 = flags s6"
    using crash_policy_fields [of e s6] s6 by (simp_all add: cp)
  show "pid (snd (Reap e s)) = 0"
    unfolding reap using assms s6 s7
    by (cases oc) (simp_all add: cp NotifyStateChange_eq emit_def)
  show "start_order (snd (Reap e s)) = 0"
    unfolding reap using assms s6 s7
    by (cases oc) (simp_all add: cp NotifyStateChange_eq emit_def)
  show "\<not> has (flags (snd (Reap e s))) SVC_RUNNING"
    unfolding reap using assms R s7
    by (cases oc) (simp_all add: cp NotifyStateChange_eq emit_def)
qed

lemma Reap_temporary_fields:
  assumes "has (flags s) SVC_TEMPORARY"
  shows "fst (Reap e s) = Returned"
    and "pid (snd (Reap e s)) = pid s"
    and "start_order (snd (Reap e s)) = start_order s"
    and "flags (snd (Reap e s)) = flags s AND NOT SVC_EXEC"
    and "trace (snd (Reap e s)) = trace s
           @ (if (\<not> has (flags s) SVC_ONESHOT \<or> has (flags s) SVC_RESTART)
                 \<and> \<not> process_cgroup_empty s
              then [killProcessGroup (uid s) (pid s) SIGKILL] else [])
           @ map DescriptorClean (descriptors s)
           @ map reap_callback [0 ..< reap_callbacks s]"
proof -
  obtain s4 s6 where
    s4: "flags s4 = flags s AND NOT SVC_EXEC" "pid s4 = pid s"
      "start_order s4 = start_order s"
      "trace s4 = trace s
           @ (if (\<not> has (flags s) SVC_ONESHOT \<or> has (flags s) SVC_RESTART)
                 \<and> \<not> process_cgroup_empty s
              then [killProcessGroup (uid s) (pid s) SIGKILL] else [])
           @ map DescriptorClean (descriptors s)
           @ map reap_callback [0 ..< reap_callbacks s]"
    and reap: "Reap e s =
          (if has (flags s) SVC_TEMPORARY then (Returned, s4)
           else if has (flags s6) (SVC_DISABLED OR SVC_RESET)
           then (Returned, NotifyStateChange e ''stopped'' s6)
           else
             (case crash_policy e s6 of
                (Aborted, s7) \<Rightarrow> (Aborted, s7)
              | (Returned, s7) \<Rightarrow>
                  (Returned,
                   NotifyStateChange e ''restarting''
                     (emit onrestart_ExecuteAllCommands
                        (s7\<lparr>flags := flags s7 AND NOT SVC_RESTART OR SVC_RESTARTING\<rparr>)))))"
    by (rule Reap_cases [of s e]) blast
  have r: "Reap e s = (Returned, s4)" using assms by (simp add: reap)
  show "fst (Reap e s) = Returned" "pid (snd (Reap e s)) = pid s"
    "start_order (snd (Reap e s)) = start_order s"
    "flags (snd (Reap e s)) = flags s AND NOT SVC_EXEC"
    "trace (snd (Reap e s)) = trace s
           @ (if (\<not> has (flags s) SVC_ONESHOT \<or> has (flags s) SVC_RESTART)
                 \<and> \<not> process_cgroup_empty s
              then [killProcessGroup (uid s) (pid s) SIGKILL] else [])
           @ map DescriptorClean (descriptors s)
           @ map reap_callback [0 ..< reap_callbacks s]"
    unfolding r by (simp_all add: s4)
qed

text \<open>
  C10. Reap on a TEMPORARY service returns at line 241: the process group has been
  signalled where lines 227-229 ask for it, the descriptors are cleaned, the callbacks run,
  and EXEC is cleared; pid, start_order, RUNNING and every flag but EXEC are as before, and
  no property is set. On any other service Reap sets pid to 0, clears RUNNING and sets
  start_order to 0.
\<close>

theorem Reap_temporary_returns_early:
  "(has (flags s) SVC_TEMPORARY \<longrightarrow>
      fst (Reap e s) = Returned
      \<and> pid (snd (Reap e s)) = pid s
      \<and> start_order (snd (Reap e s)) = start_order s
      \<and> flags (snd (Reap e s)) = flags s AND NOT SVC_EXEC
      \<and> \<not> has (flags (snd (Reap e s))) SVC_EXEC
      \<and> has (flags (snd (Reap e s))) SVC_RUNNING = has (flags s) SVC_RUNNING
      \<and> trace (snd (Reap e s)) = trace s
           @ (if (\<not> has (flags s) SVC_ONESHOT \<or> has (flags s) SVC_RESTART)
                 \<and> \<not> process_cgroup_empty s
              then [killProcessGroup (uid s) (pid s) SIGKILL] else [])
           @ map DescriptorClean (descriptors s)
           @ map reap_callback [0 ..< reap_callbacks s]
      \<and> (\<forall>n v. property_set n v \<notin> set (drop (length (trace s)) (trace (snd (Reap e s))))))
   \<and> (\<not> has (flags s) SVC_TEMPORARY \<longrightarrow>
        pid (snd (Reap e s)) = 0
        \<and> \<not> has (flags (snd (Reap e s))) SVC_RUNNING
        \<and> start_order (snd (Reap e s)) = 0)"
proof (intro conjI impI)
  assume T: "has (flags s) SVC_TEMPORARY"
  note f = Reap_temporary_fields [OF T, of e]
  show "fst (Reap e s) = Returned" "pid (snd (Reap e s)) = pid s"
    "start_order (snd (Reap e s)) = start_order s"
    "flags (snd (Reap e s)) = flags s AND NOT SVC_EXEC"
    "trace (snd (Reap e s)) = trace s
           @ (if (\<not> has (flags s) SVC_ONESHOT \<or> has (flags s) SVC_RESTART)
                 \<and> \<not> process_cgroup_empty s
              then [killProcessGroup (uid s) (pid s) SIGKILL] else [])
           @ map DescriptorClean (descriptors s)
           @ map reap_callback [0 ..< reap_callbacks s]"
    by (fact f)+
  show "\<not> has (flags (snd (Reap e s))) SVC_EXEC"
    unfolding f(4) by (simp add: flag_simps)
  show "has (flags (snd (Reap e s))) SVC_RUNNING = has (flags s) SVC_RUNNING"
    unfolding f(4) by (simp add: flag_simps)
  show "\<forall>n v. property_set n v \<notin> set (drop (length (trace s)) (trace (snd (Reap e s))))"
    unfolding f(5) by auto
next
  assume T: "\<not> has (flags s) SVC_TEMPORARY"
  show "pid (snd (Reap e s)) = 0" "\<not> has (flags (snd (Reap e s))) SVC_RUNNING"
    "start_order (snd (Reap e s)) = 0"
    by (fact Reap_not_temporary_fields [OF T])+
qed

theorem Reap_temporary_returns_early_witness:
  "has (flags (service0\<lparr>pid := 42, start_order := 7,
                        flags := SVC_ONESHOT OR SVC_TEMPORARY OR SVC_RUNNING OR SVC_EXEC\<rparr>))
     SVC_TEMPORARY
   \<and> pid (snd (Reap env0 (service0\<lparr>pid := 42, start_order := 7,
                        flags := SVC_ONESHOT OR SVC_TEMPORARY OR SVC_RUNNING OR SVC_EXEC\<rparr>))) = 42
   \<and> has (flags (snd (Reap env0 (service0\<lparr>pid := 42, start_order := 7,
                        flags := SVC_ONESHOT OR SVC_TEMPORARY OR SVC_RUNNING OR SVC_EXEC\<rparr>))))
       SVC_RUNNING
   \<and> trace (snd (Reap env0 (service0\<lparr>pid := 42, start_order := 7,
                        flags := SVC_ONESHOT OR SVC_TEMPORARY OR SVC_RUNNING OR SVC_EXEC\<rparr>))) = []
   \<and> \<not> has (flags (service0\<lparr>pid := 42, flags := SVC_RUNNING\<rparr>)) SVC_TEMPORARY
   \<and> pid (snd (Reap env0 (service0\<lparr>pid := 42, flags := SVC_RUNNING\<rparr>))) = 0"
  using Reap_temporary_returns_early
          [of "service0\<lparr>pid := 42, start_order := 7,
                        flags := SVC_ONESHOT OR SVC_TEMPORARY OR SVC_RUNNING OR SVC_EXEC\<rparr>" env0]
        Reap_temporary_returns_early [of "service0\<lparr>pid := 42, flags := SVC_RUNNING\<rparr>" env0]
  by (simp add: flag_simps service0_def)

subsection \<open>The invariant of RUNNING and the pid\<close>

text \<open>
  What Start does to the pid and to RUNNING: nothing; or the fork fails on a service that
  was not running, and the pid is 0; or the fork succeeds on a service that was not
  running, the pid is the child's and RUNNING is set.
\<close>

lemma Start_pid_RUNNING:
  obtains (kept) "pid (snd (Start e s)) = pid s"
      "has (flags (snd (Start e s))) SVC_RUNNING = has (flags s) SVC_RUNNING"
    | (fork_failed) "\<not> has (flags s) SVC_RUNNING" "pid (snd (Start e s)) = 0"
      "\<not> has (flags (snd (Start e s))) SVC_RUNNING"
    | (started) "\<not> has (flags s) SVC_RUNNING" "0 < fork_result e"
      "pid (snd (Start e s)) = fork_result e" "has (flags (snd (Start e s))) SVC_RUNNING"
proof -
  define disabled where "disabled = has (flags s) (SVC_DISABLED OR SVC_RESET)"
  define s1 where "s1 = s\<lparr>flags := flags s AND NOT (SVC_DISABLED OR SVC_RESTARTING OR SVC_RESET
                                OR SVC_RESTART OR SVC_DISABLED_START)\<rparr>"
  define needs_console where "needs_console = has (flags s1) SVC_CONSOLE"
  define s2 where "s2 = (if needs_console \<and> console s1 = []
                       then s1\<lparr>console := default_console e\<rparr> else s1)"
  define s3 where "s3 = (if \<not> runtime_apex_ready e \<and> \<not> pre_apexd s2
                            then s2\<lparr>pre_apexd := True\<rparr> else s2)"
  define s4 where "s4 = emit fork_or_clone (s3\<lparr>post_data := is_post_data e\<rparr>)"
  define child where "child = fork_result e"
  define s5 where "s5 = (if oom_score_adjust s4 \<noteq> - 1000
                                 then emit (WriteOomScoreAdj child (oom_score_adjust s4)) s4
                                 else s4)"
  define s6 where "s6 = s5\<lparr>time_started := now e, pid := child,
                                   flags := flags s5 OR SVC_RUNNING,
                                   start_order := next_start_order s5,
                                   next_start_order := next_start_order s5 + 1,
                                   process_cgroup_empty := False\<rparr>"
  define s7 where "s7 = emit (createProcessGroup (uid s6) (pid s6) (use_memcg s6)) s6"
  have start: "Start e s =
     (if updatable s \<and> \<not> services_updated e
      then (Error NotUpdatedQueued, emit (DelayService (name s)) s)
      else if has (flags s1) SVC_RUNNING
           then (Success, if has (flags s1) SVC_ONESHOT \<and> disabled
                          then s1\<lparr>flags := flags s1 OR SVC_RESTART\<rparr> else s1)
           else if needs_console \<and> \<not> console_open_ok e
                then (Error NoConsole, s2\<lparr>flags := flags s2 OR SVC_DISABLED\<rparr>)
                else if \<not> stat_ok e
                then (Error CannotFind, s2\<lparr>flags := flags s2 OR SVC_DISABLED\<rparr>)
                else if seclabel s2 = [] \<and> computed_context e = None
                then (Error NoContext, s2)
                else if child = 0 then (InChild, s4)
                     else if child < 0 then (Error ForkFailed, s4\<lparr>pid := 0\<rparr>)
                     else (Success, NotifyStateChange e ''running'' s7))"
    unfolding Start_def s7_def s6_def s5_def child_def s4_def s3_def s2_def needs_console_def
      s1_def disabled_def Let_def
    by (rule refl)
  have r1: "has (flags s1) SVC_RUNNING = has (flags s) SVC_RUNNING" "pid s1 = pid s"
    by (simp_all add: s1_def flag_simps)
  have r1': "has (flags s1 OR SVC_RESTART) SVC_RUNNING = has (flags s) SVC_RUNNING"
    by (simp_all add: s1_def flag_simps)
  have f2: "flags s2 = flags s1" "pid s2 = pid s1" by (simp_all add: s2_def)
  have r2': "has (flags s2 OR SVC_DISABLED) SVC_RUNNING = has (flags s) SVC_RUNNING"
    by (simp_all add: f2 s1_def flag_simps)
  have f4: "flags s4 = flags s1" "pid s4 = pid s1"
    by (simp_all add: s4_def s3_def emit_def f2)
  have f5: "flags s5 = flags s1" by (simp add: s5_def emit_def f4)
  have f7: "pid s7 = child" "flags s7 = flags s1 OR SVC_RUNNING"
    by (simp_all add: s7_def s6_def emit_def f5)
  have r7: "has (flags s7) SVC_RUNNING" by (simp add: f7 flag_simps)
  consider (a) "updatable s \<and> \<not> services_updated e"
    | (b) "\<not> (updatable s \<and> \<not> services_updated e)" "has (flags s1) SVC_RUNNING"
    | (c) "\<not> (updatable s \<and> \<not> services_updated e)" "\<not> has (flags s1) SVC_RUNNING"
          "(needs_console \<and> \<not> console_open_ok e) \<or> \<not> stat_ok e"
    | (d) "\<not> (updatable s \<and> \<not> services_updated e)" "\<not> has (flags s1) SVC_RUNNING"
          "\<not> ((needs_console \<and> \<not> console_open_ok e) \<or> \<not> stat_ok e)"
          "(seclabel s2 = [] \<and> computed_context e = None) \<or> child = 0"
    | (f) "\<not> (updatable s \<and> \<not> services_updated e)" "\<not> has (flags s1) SVC_RUNNING"
          "\<not> ((needs_console \<and> \<not> console_open_ok e) \<or> \<not> stat_ok e)"
          "\<not> ((seclabel s2 = [] \<and> computed_context e = None) \<or> child = 0)" "child < 0"
    | (g) "\<not> (updatable s \<and> \<not> services_updated e)" "\<not> has (flags s1) SVC_RUNNING"
          "\<not> ((needs_console \<and> \<not> console_open_ok e) \<or> \<not> stat_ok e)"
          "\<not> ((seclabel s2 = [] \<and> computed_context e = None) \<or> child = 0)" "0 < child"
    by linarith
  then show thesis
  proof cases
    case a
    then show ?thesis by (intro kept) (auto simp add: start emit_def)
  next
    case b
    then show ?thesis using r1 r1' by (intro kept) (auto simp add: start emit_def)
  next
    case c
    then show ?thesis using r1 r2' f2 by (intro kept) (auto simp add: start)
  next
    case d
    then show ?thesis using r1 f2 f4 by (intro kept) (auto simp add: start)
  next
    case f
    then show ?thesis using r1 f4 by (intro fork_failed) (auto simp add: start)
  next
    case g
    then show ?thesis using r1 f7 r7
      by (intro started) (auto simp add: start child_def NotifyStateChange_eq)
  qed
qed


lemma Start_inv:
  assumes "has (flags s) SVC_RUNNING = (0 < pid s)"
  shows "has (flags (snd (Start e s))) SVC_RUNNING = (0 < pid (snd (Start e s)))"
  by (rule Start_pid_RUNNING [of e s]) (use assms in auto)

lemma ExecStart_inv:
  assumes "has (flags s) SVC_RUNNING = (0 < pid s)"
  shows "has (flags (snd (ExecStart e s))) SVC_RUNNING = (0 < pid (snd (ExecStart e s)))"
proof -
  let ?s0 = "s\<lparr>flags := flags s OR SVC_ONESHOT\<rparr>"
  have "has (flags ?s0) SVC_RUNNING = (0 < pid ?s0)"
    using assms by (simp add: flag_simps)
  from Start_inv [OF this, of e]
  have i: "has (flags (snd (Start e ?s0))) SVC_RUNNING = (0 < pid (snd (Start e ?s0)))" .
  obtain r s1 where st: "Start e ?s0 = (r, s1)" by (cases "Start e ?s0")
  have x: "has (flags s1 OR SVC_EXEC) SVC_RUNNING = has (flags s1) SVC_RUNNING"
    by (simp add: flag_simps)
  show ?thesis
    using assms i x by (cases r) (simp_all add: ExecStart_def st)
qed

lemma StopOrReset_inv:
  assumes "has (flags s) SVC_RUNNING = (0 < pid s)"
  shows "has (flags (StopOrReset e how s)) SVC_RUNNING = (0 < pid (StopOrReset e how s))"
proof -
  have "has (flags (StopOrReset e how s)) SVC_RUNNING = has (flags s) SVC_RUNNING"
    unfolding flags_StopOrReset by (simp add: flag_simps)
  then show ?thesis using assms by (simp add: pid_StopOrReset)
qed

lemma Enable_inv:
  assumes "has (flags s) SVC_RUNNING = (0 < pid s)"
  shows "has (flags (snd (Enable e s))) SVC_RUNNING = (0 < pid (snd (Enable e s)))"
proof -
  let ?s1 = "s\<lparr>flags := flags s AND NOT (SVC_DISABLED OR SVC_RC_DISABLED)\<rparr>"
  have i: "has (flags ?s1) SVC_RUNNING = (0 < pid ?s1)"
    using assms by (simp add: flag_simps)
  show ?thesis
    using i Start_inv [OF i, of e] by (simp add: Enable_def Let_def)
qed

lemma StartIfNotDisabled_inv:
  assumes "has (flags s) SVC_RUNNING = (0 < pid s)"
  shows "has (flags (snd (StartIfNotDisabled e s))) SVC_RUNNING
           = (0 < pid (snd (StartIfNotDisabled e s)))"
proof -
  have "has (flags s OR SVC_DISABLED_START) SVC_RUNNING = has (flags s) SVC_RUNNING"
    by (simp add: flag_simps)
  then show ?thesis
    using assms Start_inv [OF assms, of e] by (simp add: StartIfNotDisabled_def)
qed

lemma Terminate_inv:
  assumes "has (flags s) SVC_RUNNING = (0 < pid s)"
  shows "has (flags (Terminate e s)) SVC_RUNNING = (0 < pid (Terminate e s))"
proof -
  have "has (flags s AND NOT (SVC_RESTARTING OR SVC_DISABLED_START) OR SVC_DISABLED) SVC_RUNNING
          = has (flags s) SVC_RUNNING"
    by (simp add: flag_simps)
  then show ?thesis
    using assms by (simp add: Terminate_def Let_def)
qed

lemma Timeout_inv:
  assumes "has (flags s) SVC_RUNNING = (0 < pid s)"
  shows "has (flags (Timeout e s)) SVC_RUNNING = (0 < pid (Timeout e s))"
  using assms by (simp add: Timeout_def)

lemma Restart_inv:
  assumes "has (flags s) SVC_RUNNING = (0 < pid s)"
  shows "has (flags (snd (Restart e s))) SVC_RUNNING = (0 < pid (snd (Restart e s)))"
proof -
  obtain r s1 where st: "Start e s = (r, s1)" by (cases "Start e s")
  show ?thesis
    using assms StopOrReset_inv [OF assms, of e SVC_RESTART] Start_inv [OF assms, of e]
    by (cases r) (simp_all add: Restart_def st)
qed

lemma ResetIfPostData_inv:
  assumes "has (flags s) SVC_RUNNING = (0 < pid s)"
  shows "has (flags (ResetIfPostData e s)) SVC_RUNNING = (0 < pid (ResetIfPostData e s))"
proof -
  let ?s1 = "s\<lparr>running_at_post_data_reset := True\<rparr>"
  have "has (flags ?s1) SVC_RUNNING = (0 < pid ?s1)" using assms by simp
  from StopOrReset_inv [OF this, of e SVC_RESET] StopOrReset_inv [OF assms, of e SVC_RESET] assms
  show ?thesis by (simp add: ResetIfPostData_def)
qed

lemma Reap_inv:
  assumes "has (flags s) SVC_RUNNING = (0 < pid s)"
  shows "has (flags (snd (Reap e s))) SVC_RUNNING = (0 < pid (snd (Reap e s)))"
proof (cases "has (flags s) SVC_TEMPORARY")
  case True
  have "has (flags s AND NOT SVC_EXEC) SVC_RUNNING = has (flags s) SVC_RUNNING"
    by (simp add: flag_simps)
  then show ?thesis
    using assms by (simp add: Reap_temporary_fields [OF True])
next
  case False
  then show ?thesis by (simp add: Reap_not_temporary_fields)
qed

lemma apply_op_inv:
  assumes "has (flags s) SVC_RUNNING = (0 < pid s)" and "apply_op o1 e s = Some s'"
  shows "has (flags s') SVC_RUNNING = (0 < pid s')"
proof -
  have c: "\<And>rs. continue rs = Some s' \<Longrightarrow> s' = snd rs"
    by (auto simp add: continue_def split: prod.splits result.splits)
  have r: "\<And>rs. (case rs of (Aborted, s1) \<Rightarrow> None | (Returned, s1) \<Rightarrow> Some s1) = Some s'
             \<Longrightarrow> s' = snd rs"
    by (auto split: prod.splits outcome.splits)
  show ?thesis
  proof (cases o1)
    case OpStart
    with assms(2) have "s' = snd (Start e s)" by (simp add: c)
    then show ?thesis using Start_inv [OF assms(1)] by simp
  next
    case OpExecStart
    with assms(2) have "s' = snd (ExecStart e s)" by (simp add: c)
    then show ?thesis using ExecStart_inv [OF assms(1)] by simp
  next
    case OpStartIfNotDisabled
    with assms(2) have "s' = snd (StartIfNotDisabled e s)" by (simp add: c)
    then show ?thesis using StartIfNotDisabled_inv [OF assms(1)] by simp
  next
    case OpEnable
    with assms(2) have "s' = snd (Enable e s)" by (simp add: c)
    then show ?thesis using Enable_inv [OF assms(1)] by simp
  next
    case OpReset
    with assms(2) have "s' = StopOrReset e SVC_RESET s" by (simp add: Reset_def)
    then show ?thesis using StopOrReset_inv [OF assms(1)] by simp
  next
    case OpResetIfPostData
    with assms(2) have "s' = ResetIfPostData e s" by simp
    then show ?thesis using ResetIfPostData_inv [OF assms(1)] by simp
  next
    case OpStartIfPostData
    with assms(2) have "s' = snd (StartIfPostData e s)" by (simp add: c)
    then show ?thesis using Start_inv [OF assms(1), of e] assms(1)
      by (simp add: StartIfPostData_def)
  next
    case OpStop
    with assms(2) have "s' = StopOrReset e SVC_DISABLED s" by (simp add: Stop_def)
    then show ?thesis using StopOrReset_inv [OF assms(1)] by simp
  next
    case OpTerminate
    with assms(2) have "s' = Terminate e s" by simp
    then show ?thesis using Terminate_inv [OF assms(1)] by simp
  next
    case OpTimeout
    with assms(2) have "s' = Timeout e s" by simp
    then show ?thesis using Timeout_inv [OF assms(1)] by simp
  next
    case OpRestart
    with assms(2) have "s' = snd (Restart e s)" by (simp add: c)
    then show ?thesis using Restart_inv [OF assms(1)] by simp
  next
    case (OpStopOrReset how)
    with assms(2) have "s' = StopOrReset e how s" by simp
    then show ?thesis using StopOrReset_inv [OF assms(1)] by simp
  next
    case OpReap
    with assms(2) have "s' = snd (Reap e s)" by (simp add: r)
    then show ?thesis using Reap_inv [OF assms(1)] by simp
  qed
qed

lemma run_inv:
  "has (flags s) SVC_RUNNING = (0 < pid s) \<Longrightarrow> run ops s = Some s'
     \<Longrightarrow> has (flags s') SVC_RUNNING = (0 < pid s')"
proof (induction ops arbitrary: s)
  case Nil
  then show ?case by simp
next
  case (Cons a ops)
  obtain o1 e where a: "a = (o1, e)" by (cases a)
  from Cons.prems(2) obtain s1 where s1: "apply_op o1 e s = Some s1" "run ops s1 = Some s'"
    by (auto simp add: a split: option.splits)
  from apply_op_inv [OF Cons.prems(1) s1(1)] Cons.IH [OF _ s1(2)]
  show ?case by simp
qed

text \<open>
  C3. After any history of lifecycle operations on a service the constructor built, with
  whatever the system answers in each: RUNNING is set exactly when the pid is positive.
  So RUNNING implies a positive pid, and a positive pid implies RUNNING, hence RUNNING or
  RESTARTING.
\<close>

theorem RUNNING_and_pid:
  "constructed s0 \<Longrightarrow> run ops s0 = Some s \<Longrightarrow>
     (has (flags s) SVC_RUNNING \<longrightarrow> 0 < pid s)
     \<and> (0 < pid s \<longrightarrow> has (flags s) SVC_RUNNING \<or> has (flags s) SVC_RESTARTING)"
proof -
  assume c: "constructed s0" and r: "run ops s0 = Some s"
  from c have "has (flags s0) SVC_RUNNING = (0 < pid s0)"
    by (simp add: constructed_def)
  from run_inv [OF this r] show ?thesis by simp
qed


lemma Start_service0:
  "fst (Start env0 service0) = Success \<and> pid (snd (Start env0 service0)) = 100
   \<and> flags (snd (Start env0 service0)) = SVC_RUNNING"
  by (simp add: Start_def service0_def env0_def Let_def has_def emit_def NotifyStateChange_def
      SVC_DISABLED_def SVC_ONESHOT_def SVC_RUNNING_def SVC_RESTARTING_def
      SVC_CONSOLE_def SVC_RESET_def SVC_RESTART_def
      SVC_DISABLED_START_def SVC_TEMPORARY_def)

theorem RUNNING_and_pid_witness:
  "constructed service0
   \<and> (\<exists>s. run [(OpStart, env0), (OpStop, env0)] service0 = Some s
          \<and> has (flags s) SVC_RUNNING \<and> has (flags s) SVC_DISABLED \<and> pid s = 100)"
proof -
  have c: "constructed service0"
    by (simp add: constructed_def service0_def has_def)
  obtain r s1 where st: "Start env0 service0 = (r, s1)" by (cases "Start env0 service0")
  with Start_service0 have s1: "r = Success" "pid s1 = 100" "flags s1 = SVC_RUNNING" by simp_all
  let ?s = "StopOrReset env0 SVC_DISABLED s1"
  have run: "run [(OpStart, env0), (OpStop, env0)] service0 = Some ?s"
    by (simp add: st s1 continue_def Stop_def)
  have f: "has (flags ?s) SVC_RUNNING" "has (flags ?s) SVC_DISABLED"
    unfolding flags_StopOrReset s1 by (simp_all add: SVC_distinct) (simp_all add: flag_simps)
  have p: "pid ?s = 100" by (simp add: pid_StopOrReset s1)
  show ?thesis
    using c run f p RUNNING_and_pid [OF c run] by simp
qed

subsection \<open>RecvString\<close>

lemma PollIn_ready:
  "0 < t \<Longrightarrow> 0 < nr p \<Longrightarrow> millis p < t \<Longrightarrow> PollIn (p # ps) t = (True, t - millis p, ps)"
  by simp

lemma RecvFully_loop_done:
  "RecvFully_loop c data 0 t = (Some data, t, c)"
  by (simp add: RecvFully_loop.simps)

text \<open>
  Every successful RecvFully has read exactly the bytes asked for.
\<close>

lemma RecvFully_loop_length:
  "RecvFully_loop c data n t = (Some bs, t', c') \<Longrightarrow> length bs = length data + n"
proof (induction c data n t rule: RecvFully_loop.induct)
  case (1 c data bytes_left timeout_ms)
  show ?case
  proof (cases "timeout_ms > 0 \<and> bytes_left > 0")
    case False
    with "1.prems" show ?thesis
      by (simp add: RecvFully_loop.simps split: if_splits)
  next
    case True
    obtain ok t1 ps where p: "PollIn (polls c) timeout_ms = (ok, t1, ps)"
      by (cases "PollIn (polls c) timeout_ms")
    obtain r rs where r: "recv (recvs c) bytes_left = (r, rs)"
      by (cases "recv (recvs c) bytes_left")
    from "1.prems" True p r obtain chunk where
      ok: "ok" and rr: "r = Some chunk"
      and rec: "RecvFully_loop (c\<lparr>polls := ps, recvs := rs\<rparr>) (data @ chunk)
                  (bytes_left - length chunk) t1 = (Some bs, t', c')"
      by (subst (asm) RecvFully_loop.simps) (auto split: if_splits bool.splits option.splits)
    from recv_Some r rr have le: "length chunk \<le> bytes_left" by blast
    have "length bs = length (data @ chunk) + (bytes_left - length chunk)"
      using "1.IH" [OF True p [symmetric] _ refl r [symmetric] rr rec] ok by simp
    with le show ?thesis by simp
  qed
qed


text \<open>
  A socket on which the data is there in time: every poll reports the socket readable,
  the polls together take less than the time left, and the bytes arrive in non-empty
  chunks.
\<close>

lemma RecvFully_loop_prompt:
  assumes "\<forall>p\<in>set (polls c). 0 < nr p"
    and "sum_list (map millis (polls c)) < t"
    and "n \<le> length (polls c)"
    and "recvs c = map recv_bytes chunks" and "[] \<notin> set chunks"
    and "n \<le> length (concat chunks)"
  shows "\<exists>t' c' chunks'.
           RecvFully_loop c data n t = (Some (data @ take n (concat chunks)), t', c')
           \<and> (\<forall>p\<in>set (polls c'). 0 < nr p)
           \<and> sum_list (map millis (polls c')) < t'
           \<and> length (polls c) \<le> length (polls c') + n
           \<and> recvs c' = map recv_bytes chunks' \<and> [] \<notin> set chunks'
           \<and> concat chunks' = drop n (concat chunks)"
  using assms
proof (induction n arbitrary: c data t chunks rule: less_induct)
  case (less n)
  show ?case
  proof (cases "n = 0")
    case True
    with less.prems show ?thesis
      by (auto simp add: RecvFully_loop_done)
  next
    case False
    then have n: "0 < n" by simp
    from less.prems(2) have t: "0 < t" by simp
    from n less.prems(3) obtain p ps where ps: "polls c = p # ps"
      by (cases "polls c") auto
    from n less.prems(6) obtain ch chs where chs: "chunks = ch # chs"
      by (cases chunks) auto
    from less.prems(5) chs have ch: "ch \<noteq> []" by auto
    from less.prems(1,2) ps have p: "0 < nr p" "millis p < t" by auto
    have poll: "PollIn (polls c) t = (True, t - millis p, ps)"
      unfolding ps using t p by (rule PollIn_ready)
    let ?t1 = "t - millis p"
    have t1: "sum_list (map millis ps) < ?t1"
      using less.prems(2) ps by simp
    have ready: "\<forall>q\<in>set ps. 0 < nr q" using less.prems(1) ps by simp
    show ?thesis
    proof (cases "length ch \<le> n")
      case True
      let ?c1 = "c\<lparr>polls := ps, recvs := map recv_bytes chs\<rparr>"
      have rc: "recv (recvs c) n = (Some ch, map recv_bytes chs)"
        using True ch n by (simp add: less.prems(4) chs)
      have unf: "RecvFully_loop c data n t = RecvFully_loop ?c1 (data @ ch) (n - length ch) ?t1"
        using t n by (subst RecvFully_loop.simps) (simp add: poll rc)
      have lt: "n - length ch < n" using ch n by (cases ch) auto
      have "\<exists>t' c' chunks'.
           RecvFully_loop ?c1 (data @ ch) (n - length ch) ?t1
             = (Some ((data @ ch) @ take (n - length ch) (concat chs)), t', c')
           \<and> (\<forall>p\<in>set (polls c'). 0 < nr p)
           \<and> sum_list (map millis (polls c')) < t'
           \<and> length (polls ?c1) \<le> length (polls c') + (n - length ch)
           \<and> recvs c' = map recv_bytes chunks' \<and> [] \<notin> set chunks'
           \<and> concat chunks' = drop (n - length ch) (concat chs)"
        using less.prems ready t1 True lt by (intro less.IH [OF lt]) (auto simp add: ps chs)
      then obtain t' c' chunks' where r:
        "RecvFully_loop ?c1 (data @ ch) (n - length ch) ?t1
             = (Some ((data @ ch) @ take (n - length ch) (concat chs)), t', c')"
        "\<forall>p\<in>set (polls c'). 0 < nr p" "sum_list (map millis (polls c')) < t'"
        "length (polls ?c1) \<le> length (polls c') + (n - length ch)"
        "recvs c' = map recv_bytes chunks'" "[] \<notin> set chunks'"
        "concat chunks' = drop (n - length ch) (concat chs)"
        by blast
      have tk: "(data @ ch) @ take (n - length ch) (concat chs) = data @ take n (concat chunks)"
        using True by (simp add: chs)
      have dr: "drop (n - length ch) (concat chs) = drop n (concat chunks)"
        using True by (simp add: chs)
      have ln: "length (polls c) \<le> length (polls c') + n"
        using r(4) ch True by (cases ch) (auto simp add: ps)
      show ?thesis
        unfolding unf r(1) tk using r(2,3,5,6,7) ln dr by auto
    next
      case False
      let ?c1 = "c\<lparr>polls := ps, recvs := recv_bytes (drop n ch) # map recv_bytes chs\<rparr>"
      have rc: "recv (recvs c) n = (Some (take n ch), recv_bytes (drop n ch) # map recv_bytes chs)"
        using False ch n by (simp add: less.prems(4) chs)
      have unf: "RecvFully_loop c data n t = (Some (data @ take n ch), ?t1, ?c1)"
        using t n False
        by (subst RecvFully_loop.simps) (simp add: poll rc RecvFully_loop_done)
      have tk: "take n ch = take n (concat chunks)" using False by (simp add: chs)
      have a: "recvs ?c1 = map recv_bytes (drop n ch # chs)" by simp
      have b: "[] \<notin> set (drop n ch # chs)" using False less.prems(5) chs by auto
      have d: "concat (drop n ch # chs) = drop n (concat chunks)" using False by (simp add: chs)
      have ln: "length (polls c) \<le> length (polls ?c1) + n" using n by (simp add: ps)
      show ?thesis
        unfolding unf tk using ready t1 a b d ln by (intro exI [of _ ?t1] exI [of _ ?c1] exI [of _ "drop n ch # chs"]) simp
    qed
  qed
qed


lemma RecvString_cases:
  assumes "RecvUint32 c t = (Some len, t1, c1)"
  shows "len = 0 \<Longrightarrow> RecvString c t = (Some [], t1, c1)"
    and "0xffff < len \<Longrightarrow> RecvString c t = (None, t1, c1)"
    and "len \<noteq> 0 \<Longrightarrow> len \<le> 0xffff \<Longrightarrow> RecvString c t = RecvChars c1 (unat len) t1"
  using assms by (auto simp add: RecvString_def)

lemma RecvChars_length:
  "RecvChars c n t = (Some bs, t', c') \<Longrightarrow> length bs = n"
  using RecvFully_loop_length [of c "[]" n t bs t' c']
  by (simp add: RecvChars_def RecvFully_def)

lemma RecvUint32_prompt:
  assumes "\<forall>p\<in>set (polls c). 0 < nr p"
    and "sum_list (map millis (polls c)) < t"
    and "4 \<le> length (polls c)"
    and "recvs c = map recv_bytes chunks" and "[] \<notin> set chunks"
    and "concat chunks = hdr @ rest" and "length hdr = 4"
  shows "\<exists>t1 c1. RecvUint32 c t = (Some (uint32_of_bytes hdr), t1, c1)"
proof -
  have "4 \<le> length (concat chunks)" using assms(6,7) by simp
  from RecvFully_loop_prompt [OF assms(1,2,3,4,5) this, of "[]"]
  obtain t1 c1 where "RecvFully_loop c [] 4 t = (Some (take 4 (concat chunks)), t1, c1)"
    by auto
  then show ?thesis
    using assms(6,7) by (simp add: RecvUint32_def RecvFully_def)
qed

text \<open>
  RecvString on such a socket, when the bytes to come are a four-byte length, a payload
  and whatever follows (\<open>rest\<close>): a length of at most 65535 that is the length of the
  payload gives the payload and leaves exactly \<open>rest\<close> in the socket, which is still such a
  socket for the next read; a greater length fails and leaves everything after the four
  bytes unread.
\<close>

lemma RecvString_prompt:
  assumes ready: "\<forall>p\<in>set (polls c). 0 < nr p"
    and time: "sum_list (map millis (polls c)) < t"
    and enough: "4 + length payload \<le> length (polls c)"
    and data: "recvs c = map recv_bytes chunks" "[] \<notin> set chunks"
      "concat chunks = hdr @ payload @ rest" "length hdr = 4"
  shows "if uint32_of_bytes hdr \<le> 0xffff
         then (unat (uint32_of_bytes hdr) = length payload \<longrightarrow>
                 (\<exists>t' c' chunks'.
                    RecvString c t = (Some payload, t', c')
                    \<and> (\<forall>p\<in>set (polls c'). 0 < nr p)
                    \<and> sum_list (map millis (polls c')) < t'
                    \<and> length (polls c) \<le> length (polls c') + (4 + length payload)
                    \<and> recvs c' = map recv_bytes chunks' \<and> [] \<notin> set chunks'
                    \<and> concat chunks' = rest))
         else (\<exists>t' c' chunks'.
                 RecvString c t = (None, t', c')
                 \<and> recvs c' = map recv_bytes chunks' \<and> [] \<notin> set chunks'
                 \<and> concat chunks' = payload @ rest)"
proof -
  have "4 \<le> length (polls c)" "4 \<le> length (concat chunks)"
    using enough data by simp_all
  from RecvFully_loop_prompt [OF ready time this(1) data(1,2) this(2), of "[]"]
  obtain t1 c1 chunks1 where r1:
    "RecvFully_loop c [] 4 t = (Some (take 4 (concat chunks)), t1, c1)"
    "\<forall>p\<in>set (polls c1). 0 < nr p" "sum_list (map millis (polls c1)) < t1"
    "length (polls c) \<le> length (polls c1) + 4"
    "recvs c1 = map recv_bytes chunks1" "[] \<notin> set chunks1"
    "concat chunks1 = drop 4 (concat chunks)"
    by auto
  have h: "take 4 (concat chunks) = hdr" "concat chunks1 = payload @ rest"
    using data r1(7) by simp_all
  let ?len = "uint32_of_bytes hdr"
  have u: "RecvUint32 c t = (Some ?len, t1, c1)"
    by (simp add: RecvUint32_def RecvFully_def r1(1) h)
  show ?thesis
  proof (cases "?len \<le> 0xffff")
    case False
    then have "0xffff < ?len" by simp
    from RecvString_cases(2) [OF u this]
    have "RecvString c t = (None, t1, c1)
                 \<and> recvs c1 = map recv_bytes chunks1 \<and> [] \<notin> set chunks1
                 \<and> concat chunks1 = payload @ rest"
      using r1(5,6) h(2) by simp
    then have "\<exists>t' c' chunks'.
                 RecvString c t = (None, t', c')
                 \<and> recvs c' = map recv_bytes chunks' \<and> [] \<notin> set chunks'
                 \<and> concat chunks' = payload @ rest"
      by blast
    then show ?thesis unfolding if_not_P [OF False] .
  next
    case True
    have "\<exists>t' c' chunks'.
                    RecvString c t = (Some payload, t', c')
                    \<and> (\<forall>p\<in>set (polls c'). 0 < nr p)
                    \<and> sum_list (map millis (polls c')) < t'
                    \<and> length (polls c) \<le> length (polls c') + (4 + length payload)
                    \<and> recvs c' = map recv_bytes chunks' \<and> [] \<notin> set chunks'
                    \<and> concat chunks' = rest"
      if eq: "unat ?len = length payload"
    proof (cases "?len = 0")
      case z: True
      with eq have p: "payload = []" by simp
      have "RecvString c t = (Some payload, t1, c1)
                    \<and> (\<forall>p\<in>set (polls c1). 0 < nr p)
                    \<and> sum_list (map millis (polls c1)) < t1
                    \<and> length (polls c) \<le> length (polls c1) + (4 + length payload)
                    \<and> recvs c1 = map recv_bytes chunks1 \<and> [] \<notin> set chunks1
                    \<and> concat chunks1 = rest"
        using RecvString_cases(1) [OF u z] r1(2,3,4,5,6) h(2) by (simp add: p)
      then show ?thesis by blast
    next
      case nz: False
      have n: "unat ?len \<le> length (polls c1)" "unat ?len \<le> length (concat chunks1)"
        using eq enough r1(4) h by simp_all
      from RecvFully_loop_prompt [OF r1(2,3) n(1) r1(5,6) n(2), of "[]"]
      obtain t2 c2 chunks2 where r2:
        "RecvFully_loop c1 [] (unat ?len) t1
          = (Some (take (unat ?len) (concat chunks1)), t2, c2)"
        "\<forall>p\<in>set (polls c2). 0 < nr p" "sum_list (map millis (polls c2)) < t2"
        "length (polls c1) \<le> length (polls c2) + unat ?len"
        "recvs c2 = map recv_bytes chunks2" "[] \<notin> set chunks2"
        "concat chunks2 = drop (unat ?len) (concat chunks1)"
        by auto
      have "RecvChars c1 (unat ?len) t1 = (Some payload, t2, c2)"
        using r2(1) eq h by (simp add: RecvChars_def RecvFully_def)
      with RecvString_cases(3) [OF u nz True]
      have s: "RecvString c t = (Some payload, t2, c2)" by simp
      have l: "length (polls c) \<le> length (polls c2) + (4 + length payload)"
        using r1(4) r2(4) eq by simp
      have d: "concat chunks2 = rest" using r2(7) eq h(2) by simp
      show ?thesis
        using s r2(2,3,5,6) l d by blast
    qed
    then show ?thesis unfolding if_P [OF True] by (rule impI)
  qed
qed

text \<open>
  Two strings one after the other, as \<open>handle_property_set_fd\<close> reads the name and the
  value of a \<open>PROP_MSG_SETPROP2\<close> request (lines 574-575) with one timeout.
\<close>

lemma RecvString_twice:
  assumes ready: "\<forall>p\<in>set (polls c). 0 < nr p"
    and time: "sum_list (map millis (polls c)) < t"
    and enough: "8 + length name' + length value \<le> length (polls c)"
    and data: "recvs c = map recv_bytes chunks" "[] \<notin> set chunks"
      "concat chunks = hdr1 @ name' @ hdr2 @ value @ rest"
      "length hdr1 = 4" "length hdr2 = 4"
    and len1: "uint32_of_bytes hdr1 \<le> 0xffff" "unat (uint32_of_bytes hdr1) = length name'"
    and len2: "uint32_of_bytes hdr2 \<le> 0xffff" "unat (uint32_of_bytes hdr2) = length value"
  shows "\<exists>t1 c1 t2 c2 chunks2.
           RecvString c t = (Some name', t1, c1) \<and> RecvString c1 t1 = (Some value, t2, c2)
           \<and> recvs c2 = map recv_bytes chunks2 \<and> [] \<notin> set chunks2 \<and> concat chunks2 = rest"
proof -
  have e1: "4 + length name' \<le> length (polls c)" using enough by simp
  from RecvString_prompt [OF ready time e1 data(1,2,3,4)] len1
  obtain t1 c1 chunks1 where r1:
    "RecvString c t = (Some name', t1, c1)"
    "\<forall>p\<in>set (polls c1). 0 < nr p" "sum_list (map millis (polls c1)) < t1"
    "length (polls c) \<le> length (polls c1) + (4 + length name')"
    "recvs c1 = map recv_bytes chunks1" "[] \<notin> set chunks1"
    "concat chunks1 = hdr2 @ value @ rest"
    by (simp only: if_True) blast
  have e2: "4 + length value \<le> length (polls c1)" using enough r1(4) by simp
  from RecvString_prompt [OF r1(2,3) e2 r1(5,6,7) data(5)] len2
  obtain t2 c2 chunks2 where r2:
    "RecvString c1 t1 = (Some value, t2, c2)"
    "recvs c2 = map recv_bytes chunks2" "[] \<notin> set chunks2" "concat chunks2 = rest"
    by (simp only: if_True) blast
  show ?thesis using r1(1) r2 by blast
qed

text \<open>
  C8. Once the length has been read: 0 gives the empty string, a length above 65535 makes
  RecvString fail without reading further, and any other length is handed to RecvChars,
  whose result, when there is one, has exactly that many bytes. On a socket where the data
  is there in time and the bytes to come are a four-byte length, a payload and anything
  after it: a length of at most 65535 that is the length of the payload gives the payload
  and leaves what follows it for the next read; a greater length fails, with everything
  after the four bytes left unread. So a name and a value sent one after the other, each
  of at most 65535 bytes, are both received.
\<close>

theorem RecvString_length_limit:
  "(\<forall>len t1 c1. RecvUint32 c t = (Some len, t1, c1) \<longrightarrow>
        (len = 0 \<longrightarrow> RecvString c t = (Some [], t1, c1))
      \<and> (0xffff < len \<longrightarrow> RecvString c t = (None, t1, c1))
      \<and> (len \<noteq> 0 \<and> len \<le> 0xffff \<longrightarrow>
            RecvString c t = RecvChars c1 (unat len) t1
            \<and> (\<forall>bs t2 c2. RecvString c t = (Some bs, t2, c2) \<longrightarrow> length bs = unat len)))
   \<and> ((\<forall>p\<in>set (polls c). 0 < nr p) \<and> sum_list (map millis (polls c)) < t
       \<and> 4 + length payload \<le> length (polls c)
       \<and> recvs c = map recv_bytes chunks \<and> [] \<notin> set chunks
       \<and> concat chunks = hdr @ payload @ rest \<and> length hdr = 4
      \<longrightarrow> (if uint32_of_bytes hdr \<le> 0xffff
           then (unat (uint32_of_bytes hdr) = length payload \<longrightarrow>
                   (\<exists>t' c' chunks'.
                      RecvString c t = (Some payload, t', c')
                      \<and> (\<forall>p\<in>set (polls c'). 0 < nr p)
                      \<and> sum_list (map millis (polls c')) < t'
                      \<and> length (polls c) \<le> length (polls c') + (4 + length payload)
                      \<and> recvs c' = map recv_bytes chunks' \<and> [] \<notin> set chunks'
                      \<and> concat chunks' = rest))
           else (\<exists>t' c' chunks'.
                   RecvString c t = (None, t', c')
                   \<and> recvs c' = map recv_bytes chunks' \<and> [] \<notin> set chunks'
                   \<and> concat chunks' = payload @ rest)))
   \<and> ((\<forall>p\<in>set (polls c). 0 < nr p) \<and> sum_list (map millis (polls c)) < t
       \<and> 8 + length name' + length value \<le> length (polls c)
       \<and> recvs c = map recv_bytes chunks \<and> [] \<notin> set chunks
       \<and> concat chunks = hdr1 @ name' @ hdr2 @ value @ rest
       \<and> length hdr1 = 4 \<and> length hdr2 = 4
       \<and> uint32_of_bytes hdr1 \<le> 0xffff \<and> unat (uint32_of_bytes hdr1) = length name'
       \<and> uint32_of_bytes hdr2 \<le> 0xffff \<and> unat (uint32_of_bytes hdr2) = length value
      \<longrightarrow> (\<exists>t1 c1 t2 c2 chunks2.
             RecvString c t = (Some name', t1, c1) \<and> RecvString c1 t1 = (Some value, t2, c2)
             \<and> recvs c2 = map recv_bytes chunks2 \<and> [] \<notin> set chunks2
             \<and> concat chunks2 = rest))"
proof (intro conjI allI impI)
  fix len t1 c1
  assume u: "RecvUint32 c t = (Some len, t1, c1)"
  show "RecvString c t = (Some [], t1, c1)" if "len = 0"
    using that by (rule RecvString_cases(1) [OF u])
  show "RecvString c t = (None, t1, c1)" if "0xffff < len"
    using that by (rule RecvString_cases(2) [OF u])
  {
    assume l: "len \<noteq> 0 \<and> len \<le> 0xffff"
    then show eq: "RecvString c t = RecvChars c1 (unat len) t1"
      using RecvString_cases(3) [OF u] by simp
    fix bs t2 c2
    assume "RecvString c t = (Some bs, t2, c2)"
    then show "length bs = unat len"
      unfolding eq by (rule RecvChars_length)
  }
next
  assume a: "(\<forall>p\<in>set (polls c). 0 < nr p) \<and> sum_list (map millis (polls c)) < t
       \<and> 4 + length payload \<le> length (polls c)
       \<and> recvs c = map recv_bytes chunks \<and> [] \<notin> set chunks
       \<and> concat chunks = hdr @ payload @ rest \<and> length hdr = 4"
  show "if uint32_of_bytes hdr \<le> 0xffff
           then (unat (uint32_of_bytes hdr) = length payload \<longrightarrow>
                   (\<exists>t' c' chunks'.
                      RecvString c t = (Some payload, t', c')
                      \<and> (\<forall>p\<in>set (polls c'). 0 < nr p)
                      \<and> sum_list (map millis (polls c')) < t'
                      \<and> length (polls c) \<le> length (polls c') + (4 + length payload)
                      \<and> recvs c' = map recv_bytes chunks' \<and> [] \<notin> set chunks'
                      \<and> concat chunks' = rest))
           else (\<exists>t' c' chunks'.
                   RecvString c t = (None, t', c')
                   \<and> recvs c' = map recv_bytes chunks' \<and> [] \<notin> set chunks'
                   \<and> concat chunks' = payload @ rest)"
  proof (rule RecvString_prompt)
    show "\<forall>p\<in>set (polls c). 0 < nr p" "sum_list (map millis (polls c)) < t"
      "4 + length payload \<le> length (polls c)" "recvs c = map recv_bytes chunks"
      "[] \<notin> set chunks" "concat chunks = hdr @ payload @ rest" "length hdr = 4"
      using a by blast+
  qed
next
  assume a: "(\<forall>p\<in>set (polls c). 0 < nr p) \<and> sum_list (map millis (polls c)) < t
       \<and> 8 + length name' + length value \<le> length (polls c)
       \<and> recvs c = map recv_bytes chunks \<and> [] \<notin> set chunks
       \<and> concat chunks = hdr1 @ name' @ hdr2 @ value @ rest
       \<and> length hdr1 = 4 \<and> length hdr2 = 4
       \<and> uint32_of_bytes hdr1 \<le> 0xffff \<and> unat (uint32_of_bytes hdr1) = length name'
       \<and> uint32_of_bytes hdr2 \<le> 0xffff \<and> unat (uint32_of_bytes hdr2) = length value"
  show "\<exists>t1 c1 t2 c2 chunks2.
             RecvString c t = (Some name', t1, c1) \<and> RecvString c1 t1 = (Some value, t2, c2)
             \<and> recvs c2 = map recv_bytes chunks2 \<and> [] \<notin> set chunks2
             \<and> concat chunks2 = rest"
  proof (rule RecvString_twice)
    show "\<forall>p\<in>set (polls c). 0 < nr p" "sum_list (map millis (polls c)) < t"
      "8 + length name' + length value \<le> length (polls c)"
      "recvs c = map recv_bytes chunks" "[] \<notin> set chunks"
      "concat chunks = hdr1 @ name' @ hdr2 @ value @ rest"
      "length hdr1 = 4" "length hdr2 = 4"
      "uint32_of_bytes hdr1 \<le> 0xffff" "unat (uint32_of_bytes hdr1) = length name'"
      "uint32_of_bytes hdr2 \<le> 0xffff" "unat (uint32_of_bytes hdr2) = length value"
      using a by blast+
  qed
qed

text \<open>
  On a client whose bytes are all there: a string of 65535 bytes is received, also when
  more bytes follow it; a length of 65536 is refused, whatever follows; the empty string
  is received; and from the frame of the name \<open>ro.foo\<close> and the value \<open>1\<close> both strings are
  received, one after the other.
\<close>

theorem RecvString_length_limit_witness:
  "fst (RecvString
         (client_socket ([CHR 0xFF, CHR 0xFF, CHR 0x00, CHR 0x00] @ replicate 65535 (CHR ''a'')))
         2000)
     = Some (replicate 65535 (CHR ''a''))
   \<and> fst (RecvString
         (client_socket ([CHR 0xFF, CHR 0xFF, CHR 0x00, CHR 0x00] @ replicate 65535 (CHR ''a'')
                          @ ''more''))
         2000)
     = Some (replicate 65535 (CHR ''a''))
   \<and> fst (RecvString
         (client_socket ([CHR 0x00, CHR 0x00, CHR 0x01, CHR 0x00] @ replicate 65536 (CHR ''a'')))
         2000)
     = None
   \<and> fst (RecvString
         (client_socket ([CHR 0x00, CHR 0x00, CHR 0x01, CHR 0x00] @ replicate 65536 (CHR ''a'')
                          @ ''more''))
         2000)
     = None
   \<and> fst (RecvString (client_socket [CHR 0x00, CHR 0x00, CHR 0x00, CHR 0x00]) 2000) = Some []
   \<and> (\<exists>t1 c1. RecvUint32
         (client_socket ([CHR 0xFF, CHR 0xFF, CHR 0x00, CHR 0x00] @ replicate 65535 (CHR ''a'')))
         2000 = (Some 0xffff, t1, c1))
   \<and> (\<exists>t1 c1 t2 c2.
         RecvString
           (client_socket ([CHR 0x06, CHR 0x00, CHR 0x00, CHR 0x00] @ ''ro.foo''
                            @ [CHR 0x01, CHR 0x00, CHR 0x00, CHR 0x00] @ ''1''))
           2000 = (Some ''ro.foo'', t1, c1)
         \<and> RecvString c1 t1 = (Some ''1'', t2, c2))"
proof -
  let ?h1 = "[CHR 0xFF, CHR 0xFF, CHR 0x00, CHR 0x00]"
  let ?h2 = "[CHR 0x00, CHR 0x00, CHR 0x01, CHR 0x00]"
  let ?h3 = "[CHR 0x00, CHR 0x00, CHR 0x00, CHR 0x00]"
  let ?h6 = "[CHR 0x06, CHR 0x00, CHR 0x00, CHR 0x00]"
  let ?h7 = "[CHR 0x01, CHR 0x00, CHR 0x00, CHR 0x00]"
  let ?f = "?h6 @ ''ro.foo'' @ ?h7 @ ''1''"
  have a: "uint32_of_bytes ?h1 = 0xffff" "uint32_of_bytes ?h2 = 0x10000"
    "uint32_of_bytes ?h3 = 0" "uint32_of_bytes ?h6 = 6" "uint32_of_bytes ?h7 = 1"
    by (simp_all add: uint32_of_bytes_def)
  have u: "\<exists>t1 c1. RecvUint32 (client_socket (?h1 @ replicate 65535 (CHR ''a''))) 2000
             = (Some (uint32_of_bytes ?h1), t1, c1)"
    by (rule RecvUint32_prompt
          [where chunks = "[?h1 @ replicate 65535 (CHR ''a'')]"
             and rest = "replicate 65535 (CHR ''a'')"])
       (simp_all add: client_socket_def sum_list_replicate)
  have s1: "fst (RecvString (client_socket (?h1 @ replicate 65535 (CHR ''a''))) 2000)
      = Some (replicate 65535 (CHR ''a''))"
    using RecvString_length_limit
        [of "client_socket (?h1 @ replicate 65535 (CHR ''a''))" 2000
            "replicate 65535 (CHR ''a'')" "[?h1 @ replicate 65535 (CHR ''a'')]" ?h1 "[]",
           THEN conjunct2, THEN conjunct1]
    by (auto simp add: a client_socket_def sum_list_replicate)
  have s2: "fst (RecvString (client_socket (?h1 @ replicate 65535 (CHR ''a'') @ ''more'')) 2000)
      = Some (replicate 65535 (CHR ''a''))"
    using RecvString_length_limit
        [of "client_socket (?h1 @ replicate 65535 (CHR ''a'') @ ''more'')" 2000
            "replicate 65535 (CHR ''a'')" "[?h1 @ replicate 65535 (CHR ''a'') @ ''more'']"
            ?h1 "''more''", THEN conjunct2, THEN conjunct1]
    by (auto simp add: a client_socket_def sum_list_replicate)
  have s3: "fst (RecvString (client_socket (?h2 @ replicate 65536 (CHR ''a''))) 2000) = None"
    using RecvString_length_limit
        [of "client_socket (?h2 @ replicate 65536 (CHR ''a''))" 2000
            "replicate 65536 (CHR ''a'')" "[?h2 @ replicate 65536 (CHR ''a'')]" ?h2 "[]",
           THEN conjunct2, THEN conjunct1]
    by (auto simp add: a client_socket_def sum_list_replicate)
  have s4: "fst (RecvString (client_socket (?h2 @ replicate 65536 (CHR ''a'') @ ''more'')) 2000)
      = None"
    using RecvString_length_limit
        [of "client_socket (?h2 @ replicate 65536 (CHR ''a'') @ ''more'')" 2000
            "replicate 65536 (CHR ''a'')" "[?h2 @ replicate 65536 (CHR ''a'') @ ''more'']"
            ?h2 "''more''", THEN conjunct2, THEN conjunct1]
    by (auto simp add: a client_socket_def sum_list_replicate)
  have s5: "fst (RecvString (client_socket ?h3) 2000) = Some []"
    using RecvString_length_limit
        [of "client_socket ?h3" 2000 "[]" "[?h3]" ?h3 "[]", THEN conjunct2, THEN conjunct1]
    by (auto simp add: a client_socket_def sum_list_replicate)
  have s6: "\<exists>t1 c1 t2 c2.
         RecvString (client_socket ?f) 2000 = (Some ''ro.foo'', t1, c1)
         \<and> RecvString c1 t1 = (Some ''1'', t2, c2)"
    using RecvString_length_limit
        [of "client_socket ?f" 2000 "[]" "[?f]" "[]" "[]" "''ro.foo''" "''1''" ?h6 ?h7,
           THEN conjunct2, THEN conjunct2]
    by (simp add: a client_socket_def sum_list_replicate) blast
  show ?thesis
    using u s1 s2 s3 s4 s5 s6 by (simp only: a simp_thms)
qed

subsection \<open>PropertySet and read-only names\<close>

lemma PropertySet_eq:
  "PropertySet e n v st =
     (if \<not> IsLegalPropertyName n then (PROP_ERROR_INVALID_NAME, st)
      else if \<not> IsLegalPropertyValue n v then (PROP_ERROR_INVALID_VALUE, st)
      else if props st n \<noteq> None \<and> StartsWith n ''ro.'' then (PROP_ERROR_READ_ONLY_PROPERTY, st)
      else if props st n = None \<and> add_rc e < 0 then (PROP_ERROR_SET_FAILED, st)
      else (PROP_SUCCESS,
            st\<lparr>props := (props st)(n \<mapsto> v),
               persisted := persisted st
                 @ (if persistent_properties_loaded st \<and> StartsWith n ''persist.''
                    then [(n, v)] else []),
               sent := sent st
                 @ (if accept_messages st \<and> send_ok e then [changed_message n v] else [])\<rparr>))"
  by (cases "props st n") (simp_all add: PropertySet_def SendPropertyChanged_def Let_def)

lemma PropertySet_success:
  assumes "PropertySet e n v st = (PROP_SUCCESS, st1)"
  shows "IsLegalPropertyName n" and "IsLegalPropertyValue n v" and "props st1 n = Some v"
    and "props st n \<noteq> None \<Longrightarrow> \<not> StartsWith n ''ro.''"
    and "props st1 = (props st)(n \<mapsto> v)"
  using assms by (auto simp add: PropertySet_eq split: if_splits)

lemma PropertySet_failure:
  "fst (PropertySet e n v st) \<noteq> PROP_SUCCESS \<Longrightarrow> snd (PropertySet e n v st) = st"
  by (auto simp add: PropertySet_eq split: if_splits)

text \<open>A read-only property that is set stays as it is through every PropertySet.\<close>

lemma PropertySet_keeps_ro:
  assumes "StartsWith n ''ro.''" and "props st n = Some v"
  shows "props (snd (PropertySet e m w st)) n = Some v"
proof (cases "fst (PropertySet e m w st) = PROP_SUCCESS")
  case False
  then show ?thesis using assms(2) by (simp add: PropertySet_failure)
next
  case True
  then obtain st1 where s: "PropertySet e m w st = (PROP_SUCCESS, st1)"
    by (cases "PropertySet e m w st") simp
  have "m \<noteq> n" using PropertySet_success(4) [OF s] assms by auto
  then show ?thesis using PropertySet_success(5) [OF s] assms(2) by (simp add: s)
qed

lemma SendControlMessage_props:
  "props (fst (snd (SendControlMessage e msg n p socket st))) = props st"
  "persisted (fst (snd (SendControlMessage e msg n p socket st))) = persisted st"
  by (simp_all add: SendControlMessage_def Let_def split: option.splits prod.splits)

lemma HandlePropertySet_keeps_ro:
  assumes "StartsWith n ''ro.''" and "props st n = Some v"
  shows "props (fst (snd (HandlePropertySet e m w src cr socket st))) n = Some v"
proof -
  have "props (fst (snd (case PropertySet e m w st of (r, st1) \<Rightarrow> (r, st1, socket)))) n = Some v"
    using PropertySet_keeps_ro [OF assms, of e m w] by (cases "PropertySet e m w st") simp
  then show ?thesis
    using assms(2)
    by (simp add: HandlePropertySet_def Let_def SendControlMessage_props TriggerRestorecon_def)
qed

lemma after_calls_keeps_ro:
  assumes "StartsWith n ''ro.''"
  shows "props st n = Some v \<Longrightarrow> props (after_calls st calls) n = Some v"
proof (induction calls arbitrary: st)
  case Nil
  then show ?case by (simp add: after_calls_def)
next
  case (Cons c calls)
  have "props (after_call st c) n = Some v"
    using PropertySet_keeps_ro [OF assms Cons.prems] HandlePropertySet_keeps_ro [OF assms Cons.prems]
    by (cases c) simp_all
  from Cons.IH [OF this] show ?case by (simp add: after_calls_def)
qed

text \<open>
  C2, as the code has it. Once a Set of a name that starts with \<open>ro.\<close> has returned
  Success, then after any further direct Sets and handled requests a Set of that name
  returns ReadOnlyAlready when the value is legal and InvalidValue when it is not, and in
  both cases leaves the state as it is, with the value first stored.
\<close>

theorem PropertySet_ro_write_once:
  "StartsWith n ''ro.'' \<Longrightarrow> PropertySet e n v st = (PROP_SUCCESS, st1) \<Longrightarrow>
     props (after_calls st1 calls) n = Some v
     \<and> PropertySet e' n v' (after_calls st1 calls) =
         (if IsLegalPropertyValue n v' then PROP_ERROR_READ_ONLY_PROPERTY
          else PROP_ERROR_INVALID_VALUE,
          after_calls st1 calls)"
proof -
  assume ro: "StartsWith n ''ro.''" and s: "PropertySet e n v st = (PROP_SUCCESS, st1)"
  have k: "props (after_calls st1 calls) n = Some v"
    by (rule after_calls_keeps_ro [OF ro PropertySet_success(3) [OF s]])
  show ?thesis
    using k ro PropertySet_success(1) [OF s] by (simp add: PropertySet_eq)
qed

lemma legal_ro_foo: "IsLegalPropertyName ''ro.foo''"
  by (simp add: IsLegalPropertyName_def name_alphabet_def)

theorem PropertySet_ro_write_once_witness:
  "StartsWith ''ro.foo'' ''ro.''
   \<and> fst (PropertySet prop_env0 ''ro.foo'' ''1'' prop_state0) = PROP_SUCCESS
   \<and> fst (PropertySet prop_env0 ''ro.foo'' ''2''
            (after_calls (snd (PropertySet prop_env0 ''ro.foo'' ''1'' prop_state0))
               [Set_call prop_env0 ''sys.bar'' ''x'']))
       = PROP_ERROR_READ_ONLY_PROPERTY
   \<and> props (after_calls (snd (PropertySet prop_env0 ''ro.foo'' ''1'' prop_state0))
               [Set_call prop_env0 ''sys.bar'' ''x'']) ''ro.foo'' = Some ''1''"
proof -
  have ro: "StartsWith ''ro.foo'' ''ro.''" by (simp add: StartsWith_def)
  obtain st1 where s: "PropertySet prop_env0 ''ro.foo'' ''1'' prop_state0 = (PROP_SUCCESS, st1)"
    by (simp add: PropertySet_eq legal_ro_foo IsLegalPropertyValue_def prop_state0_def
        prop_env0_def)
  have l: "IsLegalPropertyValue ''ro.foo'' ''2''" by (simp add: IsLegalPropertyValue_def)
  show ?thesis
    using ro l PropertySet_ro_write_once [OF ro s, of "[Set_call prop_env0 ''sys.bar'' ''x'']" prop_env0 "''2''"]
    by (simp add: s)
qed

text \<open>
  C2 as stated fails when the value of the second Set is not legal: the legality of the
  value is tested first, and the Set returns InvalidValue.
\<close>

theorem PropertySet_ro_illegal_value:
  "StartsWith ''ro.foo'' ''ro.''
   \<and> fst (PropertySet prop_env0 ''ro.foo'' ''1'' prop_state0) = PROP_SUCCESS
   \<and> fst (PropertySet prop_env0 ''ro.foo'' (replicate 92 (CHR ''x''))
            (snd (PropertySet prop_env0 ''ro.foo'' ''1'' prop_state0)))
       = PROP_ERROR_INVALID_VALUE"
  by (simp add: PropertySet_eq legal_ro_foo IsLegalPropertyValue_def prop_state0_def
        prop_env0_def StartsWith_def)

subsection \<open>Control requests\<close>

lemma NUL_not_in_alphabet: "CHR 0x00 \<notin> name_alphabet"
  by (simp add: name_alphabet_def)

lemma c_str_legal: "IsLegalPropertyName n \<Longrightarrow> c_str n = n"
proof -
  assume "IsLegalPropertyName n"
  then have "\<forall>c\<in>set n. c \<in> name_alphabet"
    by (simp add: IsLegalPropertyName_def list_all_iff)
  with NUL_not_in_alphabet have "\<forall>c\<in>set n. c \<noteq> CHR 0x00" by metis
  then show ?thesis by (simp add: c_str_def)
qed

lemma CheckPermissions_legal:
  "CheckPermissions e n v src cr = PROP_SUCCESS \<Longrightarrow> IsLegalPropertyName n"
  by (auto simp add: CheckPermissions_def split: if_splits)

lemma SendControlMessage_eq:
  "SendControlMessage e msg n p socket st =
     (if \<not> accept_messages st then (PROP_ERROR_HANDLE_CONTROL_MESSAGE, st, socket)
      else if \<not> send_ok e
      then (PROP_ERROR_HANDLE_CONTROL_MESSAGE,
            (case socket of
               Some c \<Rightarrow> if vendor_api_level e > ANDROID_API_Q \<and> socket_fd c \<noteq> - 1
                         then st\<lparr>closed_fds := closed_fds st @ [socket_fd c]\<rparr> else st
             | None \<Rightarrow> st),
            (case socket of
               Some c \<Rightarrow> if vendor_api_level e > ANDROID_API_Q
                         then Some (c\<lparr>socket_fd := - 1\<rparr>) else socket
             | None \<Rightarrow> socket))
      else (PROP_SUCCESS,
            st\<lparr>sent := sent st @
                 [control_message msg n p
                    (case socket of
                       Some c \<Rightarrow> if vendor_api_level e > ANDROID_API_Q
                                 then Some (socket_fd c) else None
                     | None \<Rightarrow> None)]\<rparr>,
            (case socket of
               Some c \<Rightarrow> if vendor_api_level e > ANDROID_API_Q
                         then Some (c\<lparr>socket_fd := - 1\<rparr>) else socket
             | None \<Rightarrow> socket)))"
  by (cases socket) (simp_all add: SendControlMessage_def Release_def Let_def)

text \<open>
  C4, as the code has it. A request whose name starts with \<open>ctl.\<close> never changes the
  property area, and nothing is written to the persistent store. When the permission check
  passes, init accepts messages and the send on the internal socket succeeds, the handler
  returns Success and has sent one control message: its msg is the name without the
  leading \<open>ctl.\<close>, its name is the value of the request, with the pid of the writer and,
  above API level Q, the descriptor of the client socket. In every other case it returns
  an error and sends nothing.
\<close>

theorem HandlePropertySet_ctl:
  "StartsWith n ''ctl.'' \<Longrightarrow>
     props (fst (snd (HandlePropertySet e n v src cr socket st))) = props st
     \<and> persisted (fst (snd (HandlePropertySet e n v src cr socket st))) = persisted st
     \<and> (if CheckPermissions e n v src cr = PROP_SUCCESS \<and> accept_messages st \<and> send_ok e
         then fst (HandlePropertySet e n v src cr socket st) = PROP_SUCCESS
              \<and> sent (fst (snd (HandlePropertySet e n v src cr socket st))) =
                  sent st @
                    [control_message (drop 4 n) v (cr_pid cr)
                       (case socket of
                          Some c \<Rightarrow> if vendor_api_level e > ANDROID_API_Q
                                    then Some (socket_fd c) else None
                        | None \<Rightarrow> None)]
         else fst (HandlePropertySet e n v src cr socket st) \<noteq> PROP_SUCCESS
              \<and> sent (fst (snd (HandlePropertySet e n v src cr socket st))) = sent st)"
proof -
  assume ctl: "StartsWith n ''ctl.''"
  show ?thesis
  proof (cases "CheckPermissions e n v src cr = PROP_SUCCESS")
    case False
    then show ?thesis by (simp add: HandlePropertySet_def Let_def)
  next
    case True
    have c: "c_str n = n" by (rule c_str_legal [OF CheckPermissions_legal [OF True]])
    have h: "HandlePropertySet e n v src cr socket st
               = SendControlMessage e (drop 4 n) v (cr_pid cr) socket st"
      using True ctl by (simp add: HandlePropertySet_def Let_def c)
    show ?thesis
      unfolding h using True
      by (cases socket) (simp_all add: SendControlMessage_eq)
  qed
qed

lemma legal_ctl_start: "IsLegalPropertyName ''ctl.start''"
  by (simp add: IsLegalPropertyName_def name_alphabet_def)

lemma CheckPermissions_ctl_start:
  "CheckPermissions prop_env0 ''ctl.start'' ''svc'' ''u:r:shell:s0'' shell_cred = PROP_SUCCESS"
  by (simp add: CheckPermissions_def legal_ctl_start StartsWith_def CheckControlPropertyPerms_def
      CheckMacPerms_def prop_env0_def Let_def)

theorem HandlePropertySet_ctl_witness:
  "StartsWith ''ctl.start'' ''ctl.''
   \<and> fst (HandlePropertySet prop_env0 ''ctl.start'' ''svc'' ''u:r:shell:s0'' shell_cred None
            (prop_state0\<lparr>accept_messages := True\<rparr>)) = PROP_SUCCESS
   \<and> sent (fst (snd (HandlePropertySet prop_env0 ''ctl.start'' ''svc'' ''u:r:shell:s0''
                       shell_cred None (prop_state0\<lparr>accept_messages := True\<rparr>))))
       = [control_message ''start'' ''svc'' 1234 None]
   \<and> props (fst (snd (HandlePropertySet prop_env0 ''ctl.start'' ''svc'' ''u:r:shell:s0''
                       shell_cred None (prop_state0\<lparr>accept_messages := True\<rparr>))))
       = Map.empty"
proof -
  have c: "StartsWith ''ctl.start'' ''ctl.''" by (simp add: StartsWith_def)
  show ?thesis
    using c CheckPermissions_ctl_start
      HandlePropertySet_ctl [OF c, of prop_env0 "''svc''" "''u:r:shell:s0''" shell_cred None
        "prop_state0\<lparr>accept_messages := True\<rparr>"]
    by (simp add: prop_state0_def prop_env0_def shell_cred_def)
qed

text \<open>
  C4 as stated fails while init does not accept messages: the request is permitted,
  the handler returns the control-message error and forwards nothing.
\<close>

theorem HandlePropertySet_ctl_not_accepting:
  "StartsWith ''ctl.start'' ''ctl.''
   \<and> CheckPermissions prop_env0 ''ctl.start'' ''svc'' ''u:r:shell:s0'' shell_cred = PROP_SUCCESS
   \<and> \<not> accept_messages prop_state0
   \<and> HandlePropertySet prop_env0 ''ctl.start'' ''svc'' ''u:r:shell:s0'' shell_cred None
       prop_state0 = (PROP_ERROR_HANDLE_CONTROL_MESSAGE, prop_state0, None)
   \<and> sent prop_state0 = []"
proof -
  have c: "StartsWith ''ctl.start'' ''ctl.''" by (simp add: StartsWith_def)
  have a: "\<not> accept_messages prop_state0" "sent prop_state0 = []"
    by (simp_all add: prop_state0_def)
  have "HandlePropertySet prop_env0 ''ctl.start'' ''svc'' ''u:r:shell:s0'' shell_cred None
       prop_state0 = (PROP_ERROR_HANDLE_CONTROL_MESSAGE, prop_state0, None)"
    using c a
    by (simp add: HandlePropertySet_def Let_def CheckPermissions_ctl_start SendControlMessage_eq)
  with c a CheckPermissions_ctl_start show ?thesis by simp
qed

subsection \<open>The restorecon property\<close>

lemma kRestoreconProperty_not_ctl: "\<not> StartsWith kRestoreconProperty ''ctl.''"
  by (simp add: kRestoreconProperty_def StartsWith_def)

lemma kRestoreconProperty_not_persist: "\<not> StartsWith kRestoreconProperty ''persist.''"
  by (simp add: kRestoreconProperty_def StartsWith_def)

lemma kRestoreconProperty_not_ro: "\<not> StartsWith kRestoreconProperty ''ro.''"
  by (simp add: kRestoreconProperty_def StartsWith_def)

lemma legal_kRestoreconProperty: "IsLegalPropertyName kRestoreconProperty"
  by (simp add: IsLegalPropertyName_def name_alphabet_def kRestoreconProperty_def)

lemma c_str_kRestoreconProperty: "c_str kRestoreconProperty = kRestoreconProperty"
  by (rule c_str_legal [OF legal_kRestoreconProperty])

text \<open>
  The set of the worker is a request of pid 1: it never reaches the queue again, and once
  it is permitted it is the \<open>PropertySet\<close> of the C string of the path.
\<close>

lemma SetProperty_restorecon:
  "SetProperty e src kRestoreconProperty p st =
     (if CheckPermissions e kRestoreconProperty (c_str p) src init_cred = PROP_SUCCESS
      then snd (PropertySet e kRestoreconProperty (c_str p) st) else st)"
  by (cases "PropertySet e kRestoreconProperty (c_str p) st")
    (simp add: SetProperty_def c_str_kRestoreconProperty HandlePropertySet_def Let_def
      kRestoreconProperty_not_ctl init_cred_def)

lemma PropertySet_restorecon_stores:
  assumes "IsLegalPropertyValue kRestoreconProperty val" and "0 \<le> add_rc e"
  shows "props (snd (PropertySet e kRestoreconProperty val st)) kRestoreconProperty = Some val"
  using assms
  by (simp add: PropertySet_eq legal_kRestoreconProperty kRestoreconProperty_not_ro)

text \<open>
  The calls of a run of the worker: for each path of the queue, in the order of the queue,
  the restorecon of its C string and then the set of the property.
\<close>

lemma ThreadFunction_loop_events:
  "fst (ThreadFunction_loop e src st) =
     concat (map (\<lambda>p. [selinux_android_restorecon (c_str p),
                        android_base_SetProperty kRestoreconProperty p]) (paths st))"
proof (induction e src st rule: ThreadFunction_loop.induct)
  case (1 e src st)
  show ?case
  proof (cases "paths st")
    case Nil
    then show ?thesis by (subst ThreadFunction_loop.simps) simp
  next
    case (Cons path rest)
    let ?st2 = "SetProperty e src kRestoreconProperty path (st\<lparr>paths := rest\<rparr>)"
    have p2: "paths ?st2 = rest" by (simp add: paths_SetProperty)
    have "fst (ThreadFunction_loop e src st) =
        selinux_android_restorecon (c_str path)
          # android_base_SetProperty kRestoreconProperty path
          # fst (ThreadFunction_loop e src ?st2)"
      by (subst ThreadFunction_loop.simps) (simp add: Cons split: prod.splits)
    then show ?thesis
      using "1.IH" [OF Cons] by (simp add: Cons p2)
  qed
qed

lemma ThreadFunction_loop_paths:
  "paths (snd (ThreadFunction_loop e src st)) = []"
proof (induction e src st rule: ThreadFunction_loop.induct)
  case (1 e src st)
  show ?case
  proof (cases "paths st")
    case Nil
    then show ?thesis by (subst ThreadFunction_loop.simps) simp
  next
    case (Cons path rest)
    let ?st2 = "SetProperty e src kRestoreconProperty path (st\<lparr>paths := rest\<rparr>)"
    have "snd (ThreadFunction_loop e src st) = snd (ThreadFunction_loop e src ?st2)"
      by (subst ThreadFunction_loop.simps) (simp add: Cons split: prod.splits)
    then show ?thesis
      using "1.IH" [OF Cons] by simp
  qed
qed

text \<open>The run ends with the set for the path that was queued last.\<close>

lemma ThreadFunction_loop_last:
  "paths st = ps @ [v] \<Longrightarrow>
     \<exists>s. snd (ThreadFunction_loop e src st) = SetProperty e src kRestoreconProperty v s"
proof (induction e src st arbitrary: ps rule: ThreadFunction_loop.induct)
  case (1 e src st)
  from "1.prems" have "paths st \<noteq> []" by simp
  then obtain path rest where Cons: "paths st = path # rest"
    by (cases "paths st") auto
  let ?st2 = "SetProperty e src kRestoreconProperty path (st\<lparr>paths := rest\<rparr>)"
  have p2: "paths ?st2 = rest" by (simp add: paths_SetProperty)
  have unf: "snd (ThreadFunction_loop e src st) = snd (ThreadFunction_loop e src ?st2)"
    by (subst ThreadFunction_loop.simps) (simp add: Cons split: prod.splits)
  show ?case
  proof (cases ps)
    case Nil
    with "1.prems" Cons have pv: "path = v" "rest = []" by simp_all
    have "ThreadFunction_loop e src ?st2 = ([], ?st2)"
      by (subst ThreadFunction_loop.simps) (simp add: paths_SetProperty pv)
    then show ?thesis unfolding unf by (auto simp add: pv)
  next
    case (Cons q qs)
    with "1.prems" \<open>paths st = path # rest\<close> have "rest = qs @ [v]" by simp
    then have "paths ?st2 = qs @ [v]" by (simp add: paths_SetProperty)
    from "1.IH" [OF \<open>paths st = path # rest\<close> this] show ?thesis unfolding unf .
  qed
qed

text \<open>
  C7, as the code has it. A request to set the restorecon property from a pid other than
  1 with a non-empty value, once the permission check has passed, returns Success at once:
  the value is appended to the queue of the worker, which is started unless it is running,
  and neither the property area nor the persistent store nor the internal socket is
  touched. The worker takes the queued values in order, and for each first runs the
  restorecon, on the value read as a C string, and then sets the property to the value.
  This set is a request of pid 1 that carries the same C string: when it is permitted it
  is a PropertySet like any other, and when, for the value queued last, it is permitted,
  the C string is a legal value and the property area has room, the property holds that C
  string after the run.
\<close>

theorem HandlePropertySet_restorecon:
  "cr_pid cr \<noteq> 1 \<Longrightarrow> v \<noteq> [] \<Longrightarrow>
   CheckPermissions e kRestoreconProperty v src cr = PROP_SUCCESS \<Longrightarrow>
     HandlePropertySet e kRestoreconProperty v src cr socket st
       = (PROP_SUCCESS, TriggerRestorecon v st, socket)
     \<and> props (TriggerRestorecon v st) = props st
     \<and> persisted (TriggerRestorecon v st) = persisted st
     \<and> sent (TriggerRestorecon v st) = sent st
     \<and> paths (TriggerRestorecon v st) = paths st @ [v]
     \<and> thread_started (TriggerRestorecon v st)
     \<and> threads_spawned (TriggerRestorecon v st)
         = (if thread_started st then threads_spawned st else threads_spawned st + 1)
     \<and> fst (ThreadFunction e2 src2 (TriggerRestorecon v st)) =
         concat (map (\<lambda>p. [selinux_android_restorecon (c_str p),
                            android_base_SetProperty kRestoreconProperty p])
                   (paths st @ [v]))
     \<and> paths (snd (ThreadFunction e2 src2 (TriggerRestorecon v st))) = []
     \<and> \<not> thread_started (snd (ThreadFunction e2 src2 (TriggerRestorecon v st)))
     \<and> (\<forall>p s. SetProperty e2 src2 kRestoreconProperty p s =
           (if CheckPermissions e2 kRestoreconProperty (c_str p) src2 init_cred = PROP_SUCCESS
            then snd (PropertySet e2 kRestoreconProperty (c_str p) s) else s))
     \<and> (CheckPermissions e2 kRestoreconProperty (c_str v) src2 init_cred = PROP_SUCCESS
          \<and> IsLegalPropertyValue kRestoreconProperty (c_str v) \<and> 0 \<le> add_rc e2
          \<longrightarrow> props (snd (ThreadFunction e2 src2 (TriggerRestorecon v st))) kRestoreconProperty
               = Some (c_str v))
     \<and> (cr_pid cr1 = 1 \<and> CheckPermissions e1 kRestoreconProperty v src1 cr1 = PROP_SUCCESS
          \<longrightarrow> HandlePropertySet e1 kRestoreconProperty v src1 cr1 socket1 st1
               = (fst (PropertySet e1 kRestoreconProperty v st1),
                  snd (PropertySet e1 kRestoreconProperty v st1), socket1))"
proof -
  assume a: "cr_pid cr \<noteq> 1" "v \<noteq> []"
    and p: "CheckPermissions e kRestoreconProperty v src cr = PROP_SUCCESS"
  let ?st = "TriggerRestorecon v st"
  have h: "HandlePropertySet e kRestoreconProperty v src cr socket st
       = (PROP_SUCCESS, ?st, socket)"
    using a p by (simp add: HandlePropertySet_def Let_def kRestoreconProperty_not_ctl)
  have t: "props ?st = props st"
    "persisted ?st = persisted st"
    "sent ?st = sent st"
    "paths ?st = paths st @ [v]"
    "thread_started ?st"
    "threads_spawned ?st
         = (if thread_started st then threads_spawned st else threads_spawned st + 1)"
    by (simp_all add: TriggerRestorecon_def Let_def)
  have fin: "fst (ThreadFunction e2 src2 ?st) = fst (ThreadFunction_loop e2 src2 ?st)"
    "snd (ThreadFunction e2 src2 ?st)
       = (snd (ThreadFunction_loop e2 src2 ?st))\<lparr>thread_started := False\<rparr>"
    by (simp_all add: ThreadFunction_def split: prod.splits)
  have w: "fst (ThreadFunction e2 src2 ?st) =
         concat (map (\<lambda>p. [selinux_android_restorecon (c_str p),
                            android_base_SetProperty kRestoreconProperty p])
                   (paths st @ [v]))"
    "paths (snd (ThreadFunction e2 src2 ?st)) = []"
    "\<not> thread_started (snd (ThreadFunction e2 src2 ?st))"
    unfolding fin
    by (simp_all add: ThreadFunction_loop_events ThreadFunction_loop_paths t(4))
  have n: "\<forall>p s. SetProperty e2 src2 kRestoreconProperty p s =
           (if CheckPermissions e2 kRestoreconProperty (c_str p) src2 init_cred = PROP_SUCCESS
            then snd (PropertySet e2 kRestoreconProperty (c_str p) s) else s)"
    by (intro allI) (rule SetProperty_restorecon)
  have s: "props (snd (ThreadFunction e2 src2 ?st)) kRestoreconProperty = Some (c_str v)"
    if c: "CheckPermissions e2 kRestoreconProperty (c_str v) src2 init_cred = PROP_SUCCESS
          \<and> IsLegalPropertyValue kRestoreconProperty (c_str v) \<and> 0 \<le> add_rc e2"
  proof -
    from ThreadFunction_loop_last [OF t(4)] obtain s0 where
      "snd (ThreadFunction_loop e2 src2 ?st) = SetProperty e2 src2 kRestoreconProperty v s0"
      by blast
    then have "snd (ThreadFunction_loop e2 src2 ?st)
        = snd (PropertySet e2 kRestoreconProperty (c_str v) s0)"
      using c by (simp add: SetProperty_restorecon)
    then show ?thesis
      unfolding fin using c by (simp add: PropertySet_restorecon_stores)
  qed
  have i: "HandlePropertySet e1 kRestoreconProperty v src1 cr1 socket1 st1
               = (fst (PropertySet e1 kRestoreconProperty v st1),
                  snd (PropertySet e1 kRestoreconProperty v st1), socket1)"
    if "cr_pid cr1 = 1 \<and> CheckPermissions e1 kRestoreconProperty v src1 cr1 = PROP_SUCCESS"
    using that
    by (cases "PropertySet e1 kRestoreconProperty v st1")
      (simp add: HandlePropertySet_def Let_def kRestoreconProperty_not_ctl)
  show ?thesis
    using h t w n s i by (intro conjI impI) blast+
qed

lemma CheckPermissions_restorecon:
  "CheckPermissions prop_env0 kRestoreconProperty v ''u:r:shell:s0'' shell_cred
     = PROP_SUCCESS"
  by (simp add: CheckPermissions_def legal_kRestoreconProperty kRestoreconProperty_not_ctl
      CheckMacPerms_def prop_env0_def Let_def)

lemma CheckPermissions_restorecon_init:
  "CheckPermissions prop_env0 kRestoreconProperty v ''u:r:init:s0'' init_cred
     = PROP_SUCCESS"
  by (simp add: CheckPermissions_def legal_kRestoreconProperty kRestoreconProperty_not_ctl
      CheckMacPerms_def prop_env0_def Let_def)

text \<open>
  The request of a shell for \<open>/data/dir\<close>: Success, with the property still unset; the
  worker then runs the restorecon of \<open>/data/dir\<close> and sets the property, which holds
  \<open>/data/dir\<close> after the run. A value with a NUL inside, \<open>/data/a\<close>, NUL, \<open>b\<close>: the restorecon
  runs on \<open>/data/a\<close>, and \<open>/data/a\<close> is what the property holds after the run.
\<close>

theorem HandlePropertySet_restorecon_witness:
  "cr_pid shell_cred \<noteq> 1 \<and> ''/data/dir'' \<noteq> []
   \<and> CheckPermissions prop_env0 kRestoreconProperty ''/data/dir'' ''u:r:shell:s0'' shell_cred
       = PROP_SUCCESS
   \<and> fst (HandlePropertySet prop_env0 kRestoreconProperty ''/data/dir'' ''u:r:shell:s0''
            shell_cred None prop_state0) = PROP_SUCCESS
   \<and> props (fst (snd (HandlePropertySet prop_env0 kRestoreconProperty ''/data/dir''
                        ''u:r:shell:s0'' shell_cred None prop_state0))) kRestoreconProperty = None
   \<and> fst (ThreadFunction prop_env0 ''u:r:init:s0''
            (fst (snd (HandlePropertySet prop_env0 kRestoreconProperty
                         ''/data/dir'' ''u:r:shell:s0'' shell_cred None prop_state0))))
       = [selinux_android_restorecon ''/data/dir'',
          android_base_SetProperty kRestoreconProperty ''/data/dir'']
   \<and> props (snd (ThreadFunction prop_env0 ''u:r:init:s0''
            (fst (snd (HandlePropertySet prop_env0 kRestoreconProperty
                         ''/data/dir'' ''u:r:shell:s0'' shell_cred None prop_state0)))))
         kRestoreconProperty
       = Some ''/data/dir''
   \<and> fst (ThreadFunction prop_env0 ''u:r:init:s0''
            (fst (snd (HandlePropertySet prop_env0 kRestoreconProperty
                         [CHR ''/'', CHR ''d'', CHR ''a'', CHR ''t'', CHR ''a'', CHR ''/'', CHR ''a'', CHR 0x00,
                          CHR ''b''] ''u:r:shell:s0'' shell_cred None
                         prop_state0))))
       = [selinux_android_restorecon ''/data/a'',
          android_base_SetProperty kRestoreconProperty [CHR ''/'', CHR ''d'', CHR ''a'', CHR ''t'', CHR ''a'', CHR ''/'', CHR ''a'', CHR 0x00,
                          CHR ''b'']]
   \<and> props (snd (ThreadFunction prop_env0 ''u:r:init:s0''
            (fst (snd (HandlePropertySet prop_env0 kRestoreconProperty
                         [CHR ''/'', CHR ''d'', CHR ''a'', CHR ''t'', CHR ''a'', CHR ''/'', CHR ''a'', CHR 0x00,
                          CHR ''b''] ''u:r:shell:s0'' shell_cred None
                         prop_state0)))))
         kRestoreconProperty
       = Some ''/data/a''
   \<and> cr_pid init_cred = 1
   \<and> fst (HandlePropertySet prop_env0 kRestoreconProperty ''/data/dir'' ''u:r:init:s0''
            init_cred None prop_state0) = PROP_SUCCESS
   \<and> props (fst (snd (HandlePropertySet prop_env0 kRestoreconProperty ''/data/dir''
                        ''u:r:init:s0'' init_cred None prop_state0))) kRestoreconProperty
       = Some ''/data/dir''"
proof -
  let ?nul = "[CHR ''/'', CHR ''d'', CHR ''a'', CHR ''t'', CHR ''a'', CHR ''/'', CHR ''a'',
              CHR 0x00, CHR ''b'']"
  have a: "cr_pid shell_cred \<noteq> 1" "''/data/dir'' \<noteq> []" by (simp_all add: shell_cred_def)
  have b: "?nul \<noteq> []" by simp
  have i: "cr_pid init_cred = 1" by (simp add: init_cred_def)
  have c: "c_str ''/data/dir'' = ''/data/dir''" "c_str ?nul = ''/data/a''"
    by (simp_all add: c_str_def)
  have l: "IsLegalPropertyValue kRestoreconProperty ''/data/dir''"
    "IsLegalPropertyValue kRestoreconProperty ''/data/a''" "0 \<le> add_rc prop_env0"
    by (simp_all add: IsLegalPropertyValue_def prop_env0_def)
  have e: "paths prop_state0 = []" "props prop_state0 kRestoreconProperty = None"
    by (simp_all add: prop_state0_def)
  have s: "PropertySet prop_env0 kRestoreconProperty ''/data/dir'' prop_state0
     = (PROP_SUCCESS, prop_state0\<lparr>props := [kRestoreconProperty \<mapsto> ''/data/dir'']\<rparr>)"
    by (simp add: PropertySet_eq legal_kRestoreconProperty IsLegalPropertyValue_def
        prop_state0_def prop_env0_def kRestoreconProperty_not_persist)
  have first: "fst (HandlePropertySet prop_env0 kRestoreconProperty ''/data/dir''
                  ''u:r:shell:s0'' shell_cred None prop_state0) = PROP_SUCCESS
   \<and> props (fst (snd (HandlePropertySet prop_env0 kRestoreconProperty ''/data/dir''
                        ''u:r:shell:s0'' shell_cred None prop_state0))) kRestoreconProperty = None
   \<and> fst (ThreadFunction prop_env0 ''u:r:init:s0''
            (fst (snd (HandlePropertySet prop_env0 kRestoreconProperty
                         ''/data/dir'' ''u:r:shell:s0'' shell_cred None prop_state0))))
       = [selinux_android_restorecon ''/data/dir'',
          android_base_SetProperty kRestoreconProperty ''/data/dir'']
   \<and> props (snd (ThreadFunction prop_env0 ''u:r:init:s0''
            (fst (snd (HandlePropertySet prop_env0 kRestoreconProperty
                         ''/data/dir'' ''u:r:shell:s0'' shell_cred None prop_state0)))))
         kRestoreconProperty
       = Some ''/data/dir''
   \<and> fst (HandlePropertySet prop_env0 kRestoreconProperty ''/data/dir'' ''u:r:init:s0''
            init_cred None prop_state0) = PROP_SUCCESS
   \<and> props (fst (snd (HandlePropertySet prop_env0 kRestoreconProperty ''/data/dir''
                        ''u:r:init:s0'' init_cred None prop_state0))) kRestoreconProperty
       = Some ''/data/dir''"
    using i l e CheckPermissions_restorecon_init [of "''/data/dir''"]
      HandlePropertySet_restorecon [OF a CheckPermissions_restorecon,
        of None prop_state0 prop_env0 "''u:r:init:s0''" init_cred prop_env0 "''u:r:init:s0''"
           None prop_state0]
    by (simp add: s c)
  have second: "fst (ThreadFunction prop_env0 ''u:r:init:s0''
            (fst (snd (HandlePropertySet prop_env0 kRestoreconProperty
                         ?nul ''u:r:shell:s0'' shell_cred None prop_state0))))
       = [selinux_android_restorecon ''/data/a'',
          android_base_SetProperty kRestoreconProperty ?nul]
   \<and> props (snd (ThreadFunction prop_env0 ''u:r:init:s0''
            (fst (snd (HandlePropertySet prop_env0 kRestoreconProperty
                         ?nul ''u:r:shell:s0'' shell_cred None prop_state0)))))
         kRestoreconProperty
       = Some ''/data/a''"
    using l e CheckPermissions_restorecon_init [of "''/data/a''"]
      HandlePropertySet_restorecon [OF a(1) b CheckPermissions_restorecon,
        of None prop_state0 prop_env0 "''u:r:init:s0''" init_cred prop_env0 "''u:r:init:s0''"
           None prop_state0]
    by (simp add: c)
  show ?thesis
    using a i CheckPermissions_restorecon [of "''/data/dir''"] first second
    by (simp only: simp_thms)
qed

text \<open>
  C7 as stated fails for a writer that SELinux does not allow to set the property: the
  handler returns PermissionDenied, and nothing is queued.
\<close>

theorem HandlePropertySet_restorecon_denied:
  "cr_pid shell_cred \<noteq> 1 \<and> ''/data/dir'' \<noteq> []
   \<and> HandlePropertySet (prop_env0\<lparr>selinux_allows := (\<lambda>source target. False)\<rparr>)
       kRestoreconProperty ''/data/dir'' ''u:r:shell:s0'' shell_cred None prop_state0
       = (PROP_ERROR_PERMISSION_DENIED, prop_state0, None)"
  by (simp add: HandlePropertySet_def CheckPermissions_def legal_kRestoreconProperty
      kRestoreconProperty_not_ctl CheckMacPerms_def prop_env0_def Let_def shell_cred_def)

end
